theory Spec2Isabelle
  imports Main "HOL-Library.Word"
begin

unbundle bit_operations_syntax

section \<open>Data model of wsutil/plugins.c\<close>

text \<open>
  Pointers are addresses (\<open>nat\<close>) and \<open>None\<close> is \<open>NULL\<close>. The three kinds of heap objects
  the file allocates (\<open>plugin\<close>, \<open>plugin_type\<close> and GLib's \<open>GSList\<close> cells) live in three
  typed stores that share one allocator. The C field names are prefixed with the struct
  they belong to (\<open>next\<close> is a keyword of the proof language).
\<close>

type_synonym addr = nat
type_synonym gpointer = "addr option"
type_synonym gmodule = nat

record plugin =
  p_handle :: gmodule
  p_name :: string
  p_version :: string
  p_types :: "32 word"
  p_next :: "addr option"

record plugin_type =
  pt_type :: string
  pt_callback :: "gmodule \<Rightarrow> bool"
  pt_type_val :: "32 word"

record gslist =
  gs_data :: gpointer
  gs_next :: "addr option"

text \<open>
  Modelled from the spec: the enumeration \<open>plugin_load_failure_mode\<close> is declared in
  \<open>wsutil/plugins.h\<close>, which is not among the sources. The spec gives the scanner two
  reporting modes, verbose and silent; the source tests for \<open>REPORT_LOAD_FAILURE\<close>, the
  verbose one. The type \<open>plugin_check_type_callback\<close> of the same header is a predicate on
  module handles.
\<close>

datatype plugin_load_failure_mode = REPORT_LOAD_FAILURE | DONT_REPORT_LOAD_FAILURE

text \<open>
  Calls into the collaborators that the claims observe are recorded, in order: the
  messages handed to \<open>report_failure\<close> and \<open>report_warning\<close>, every successful
  \<open>g_module_open\<close>, every \<open>g_module_close\<close>, and every call of \<open>plugins_scan_dir\<close> together
  with the place in \<open>scan_plugins\<close> it was made from.
\<close>

datatype scan_site = Global_dir | Build_subdir | System_dir | Personal_dir

datatype event =
    Report_failure string
  | Report_warning string
  | Module_open gmodule
  | Module_close gmodule
  | Scan_dir scan_site string

text \<open>
  The program state: the two file-scope list heads, the function-static counter
  \<open>type_val\<close> of \<open>add_plugin_type\<close>, the stores, the allocator and the event record.
\<close>

record state =
  plugin_list :: "addr option"
  plugin_types :: "addr option"
  type_val :: "32 word"
  plugin_heap :: "addr \<rightharpoonup> plugin"
  type_heap :: "addr \<rightharpoonup> plugin_type"
  slist_heap :: "addr \<rightharpoonup> gslist"
  next_free :: addr
  trace :: "event list"

definition init_state :: state where
  "init_state = \<lparr> plugin_list = None, plugin_types = None, type_val = 0,
     plugin_heap = Map.empty, type_heap = Map.empty, slist_heap = Map.empty,
     next_free = 0, trace = [] \<rparr>"

text \<open>
  Everything the file obtains from outside is a parameter: the path resolvers and the
  privilege test of wsutil, the directory and file tests, the dynamic loader, and the
  platform constants \<open>G_MODULE_SUFFIX\<close>, \<open>G_DIR_SEPARATOR_S\<close> and \<open>WIN32\<close>.
  \<open>ws_dir_open\<close> gives the names that the successive \<open>ws_dir_read_name\<close> calls return,
  or \<open>None\<close> when the directory cannot be opened. \<open>g_module_open\<close> gives the handle of
  the module in a file, or \<open>None\<close> when it cannot be loaded, and \<open>g_module_error\<close> the
  loader's message for that file. \<open>g_module_symbol\<close> gives the address found for a
  symbol, read as the string it points to. \<open>EISDIR\<close> has its Linux value.
\<close>

record env =
  get_plugins_dir :: "string option"
  running_in_build_directory :: bool
  get_plugins_dir_with_version :: string
  get_plugins_pers_dir_with_version :: string
  started_with_special_privs :: bool
  file_test_exists :: "string \<Rightarrow> bool"
  file_test_is_dir :: "string \<Rightarrow> bool"
  ws_dir_open :: "string \<Rightarrow> string list option"
  test_for_directory :: "string \<Rightarrow> int"
  g_module_open :: "string \<Rightarrow> gmodule option"
  g_module_error :: "string \<Rightarrow> string"
  g_module_symbol :: "gmodule \<Rightarrow> string \<Rightarrow> string option"
  G_MODULE_SUFFIX :: string
  G_DIR_SEPARATOR_S :: string
  WIN32 :: bool

definition EISDIR :: int where
  "EISDIR = 21"

definition FILENAME_LEN :: nat where
  "FILENAME_LEN = 1024"

section \<open>Collaborators with an effect on the state\<close>

definition report_failure :: "string \<Rightarrow> state \<Rightarrow> state" where
  "report_failure msg s = s\<lparr>trace := trace s @ [Report_failure msg]\<rparr>"

definition report_warning :: "string \<Rightarrow> state \<Rightarrow> state" where
  "report_warning msg s = s\<lparr>trace := trace s @ [Report_warning msg]\<rparr>"

definition g_module_close :: "gmodule \<Rightarrow> state \<Rightarrow> state" where
  "g_module_close h s = s\<lparr>trace := trace s @ [Module_close h]\<rparr>"

text \<open>
  \<open>g_malloc\<close>: the next unused address; the caller stores the new object there. An
  address that was freed is not handed out again.
\<close>

definition g_malloc :: "state \<Rightarrow> addr \<times> state" where
  "g_malloc s = (next_free s, s\<lparr>next_free := Suc (next_free s)\<rparr>)"

text \<open>
  A result \<open>None\<close> of any operation below means that the C run has no defined result:
  it reads, writes or frees memory that is not allocated, or a list traversal never ends.
  \<open>g_free\<close> of \<open>NULL\<close> does nothing.
\<close>

definition g_free_plugin :: "addr \<Rightarrow> state \<Rightarrow> state option" where
  "g_free_plugin a s =
     (case plugin_heap s a of None \<Rightarrow> None
      | Some _ \<Rightarrow> Some (s\<lparr>plugin_heap := (plugin_heap s)(a := None)\<rparr>))"

definition g_free_plugin_type :: "gpointer \<Rightarrow> state \<Rightarrow> state option" where
  "g_free_plugin_type p s =
     (case p of None \<Rightarrow> Some s
      | Some a \<Rightarrow>
          (case type_heap s a of None \<Rightarrow> None
           | Some _ \<Rightarrow> Some (s\<lparr>type_heap := (type_heap s)(a := None)\<rparr>)))"

subsection \<open>GLib singly linked lists\<close>

text \<open>\<open>g_slist_last\<close>, as \<open>g_slist_append\<close> uses it on a non-empty list.\<close>

partial_function (option) g_slist_last :: "(addr \<rightharpoonup> gslist) \<Rightarrow> addr \<Rightarrow> addr option" where
  "g_slist_last h c =
     (case h c of None \<Rightarrow> None
      | Some cell \<Rightarrow>
          (case gs_next cell of None \<Rightarrow> Some c
           | Some n \<Rightarrow> g_slist_last h n))"

text \<open>
  \<open>g_slist_append (list, data)\<close>: a new cell holding \<open>data\<close> is linked after the last
  cell; the result is the head of the list, which is the new cell for an empty list.
\<close>

definition g_slist_append :: "addr option \<Rightarrow> gpointer \<Rightarrow> state \<Rightarrow> (addr option \<times> state) option" where
  "g_slist_append list data s =
     (let (new_list, s1) = g_malloc s;
          s2 = s1\<lparr>slist_heap := (slist_heap s1)(new_list \<mapsto> \<lparr>gs_data = data, gs_next = None\<rparr>)\<rparr>
      in case list of
           None \<Rightarrow> Some (Some new_list, s2)
         | Some c \<Rightarrow>
             (case g_slist_last (slist_heap s2) c of None \<Rightarrow> None
              | Some l \<Rightarrow>
                  (case slist_heap s2 l of None \<Rightarrow> None
                   | Some cell \<Rightarrow>
                       Some (list, s2\<lparr>slist_heap :=
                          (slist_heap s2)(l \<mapsto> cell\<lparr>gs_next := Some new_list\<rparr>)\<rparr>))))"

text \<open>
  \<open>g_slist_foreach (list, func, user_data)\<close>: the link of a cell is read before \<open>func\<close>
  is called on its data.
\<close>

partial_function (option) g_slist_foreach ::
  "addr option \<Rightarrow> (gpointer \<Rightarrow> gpointer \<Rightarrow> state \<Rightarrow> state option) \<Rightarrow> gpointer \<Rightarrow> state \<Rightarrow> state option" where
  "g_slist_foreach list func user_data s =
     (case list of None \<Rightarrow> Some s
      | Some c \<Rightarrow>
          (case slist_heap s c of None \<Rightarrow> None
           | Some cell \<Rightarrow>
               Option.bind (func (gs_data cell) user_data s)
                 (\<lambda>s1. g_slist_foreach (gs_next cell) func user_data s1)))"

text \<open>\<open>g_slist_free (list)\<close>: every cell of the list is freed.\<close>

partial_function (option) g_slist_free :: "addr option \<Rightarrow> state \<Rightarrow> state option" where
  "g_slist_free list s =
     (case list of None \<Rightarrow> Some s
      | Some c \<Rightarrow>
          (case slist_heap s c of None \<Rightarrow> None
           | Some cell \<Rightarrow>
               g_slist_free (gs_next cell) (s\<lparr>slist_heap := (slist_heap s)(c := None)\<rparr>)))"

section \<open>The functions of plugins.c\<close>

subsection \<open>\<open>add_plugin_type\<close>\<close>

definition add_plugin_type :: "string \<Rightarrow> (gmodule \<Rightarrow> bool) \<Rightarrow> state \<Rightarrow> state option" where
  "add_plugin_type type callback s =
     (if 32 \<le> type_val s then
        Some (report_failure
          (''At most 32 plugin types can be supported, so the plugin type '' @ [CHR 0x27] @ type
             @ [CHR 0x27] @ '' won'' @ [CHR 0x27] @ ''t be supported.'') s)
      else
        let (new_type, s1) = g_malloc s;
            s2 = s1\<lparr>type_heap := (type_heap s1)(new_type \<mapsto>
                    \<lparr>pt_type = type, pt_callback = callback, pt_type_val = type_val s1\<rparr>)\<rparr>
        in case g_slist_append (plugin_types s2) (Some new_type) s2 of
             None \<Rightarrow> None
           | Some (l, s3) \<Rightarrow> Some (s3\<lparr>plugin_types := l, type_val := type_val s3 + 1\<rparr>))"

subsection \<open>\<open>add_plugin\<close>\<close>

text \<open>The \<open>while (1)\<close> loop of \<open>add_plugin\<close>: the last plugin of the list.\<close>

partial_function (option) add_plugin_last :: "(addr \<rightharpoonup> plugin) \<Rightarrow> addr \<Rightarrow> addr option" where
  "add_plugin_last h pt_plug =
     (case h pt_plug of None \<Rightarrow> None
      | Some pl \<Rightarrow>
          (case p_next pl of None \<Rightarrow> Some pt_plug
           | Some n \<Rightarrow> add_plugin_last h n))"

definition add_plugin :: "addr \<Rightarrow> state \<Rightarrow> state option" where
  "add_plugin new_plug s =
     (case plugin_list s of
        None \<Rightarrow> Some (s\<lparr>plugin_list := Some new_plug\<rparr>)
      | Some pt_plug \<Rightarrow>
          (case add_plugin_last (plugin_heap s) pt_plug of None \<Rightarrow> None
           | Some l \<Rightarrow>
               (case plugin_heap s l of None \<Rightarrow> None
                | Some pl \<Rightarrow>
                    Some (s\<lparr>plugin_heap := (plugin_heap s)(l \<mapsto> pl\<lparr>p_next := Some new_plug\<rparr>)\<rparr>))))"

subsection \<open>\<open>check_if_plugin_exists\<close>\<close>

partial_function (option) check_if_plugin_exists_from ::
  "(addr \<rightharpoonup> plugin) \<Rightarrow> addr option \<Rightarrow> string \<Rightarrow> bool option" where
  "check_if_plugin_exists_from h p nm =
     (case p of None \<Rightarrow> Some False
      | Some a \<Rightarrow>
          (case h a of None \<Rightarrow> None
           | Some pl \<Rightarrow>
               if p_name pl = nm then Some True
               else check_if_plugin_exists_from h (p_next pl) nm))"

definition check_if_plugin_exists :: "string \<Rightarrow> state \<Rightarrow> bool option" where
  "check_if_plugin_exists nm s = check_if_plugin_exists_from (plugin_heap s) (plugin_list s) nm"

subsection \<open>\<open>call_plugin_callback\<close>\<close>

text \<open>
  \<open>new_plug->types |= 1 << type->type_val\<close>, on the 32-bit mask. With \<open>type_val\<close> below 32,
  which is all that \<open>add_plugin_type\<close> hands out, the shift sets exactly that bit.
\<close>

definition call_plugin_callback :: "gpointer \<Rightarrow> gpointer \<Rightarrow> state \<Rightarrow> state option" where
  "call_plugin_callback data user_data s =
     (case data of None \<Rightarrow> None
      | Some d \<Rightarrow>
     (case user_data of None \<Rightarrow> None
      | Some u \<Rightarrow>
     (case type_heap s d of None \<Rightarrow> None
      | Some type \<Rightarrow>
     (case plugin_heap s u of None \<Rightarrow> None
      | Some new_plug \<Rightarrow>
          if pt_callback type (p_handle new_plug) then
            Some (s\<lparr>plugin_heap := (plugin_heap s)(u \<mapsto>
               new_plug\<lparr>p_types := p_types new_plug OR push_bit (unat (pt_type_val type)) 1\<rparr>)\<rparr>)
          else Some s))))"

subsection \<open>\<open>plugins_scan_dir\<close>\<close>

text \<open>\<open>strrchr (name, '.')\<close> followed by \<open>dot + 1\<close>: what follows the last dot, if there is one.\<close>

definition strrchr_dot :: "string \<Rightarrow> string option" where
  "strrchr_dot nm =
     (if CHR ''.'' \<in> set nm then Some (rev (takeWhile (\<lambda>c. c \<noteq> CHR ''.'') (rev nm))) else None)"

definition quoted :: "string \<Rightarrow> string" where
  "quoted x = [CHR 0x27] @ x @ [CHR 0x27]"

text \<open>
  The body of the \<open>while\<close> loop of \<open>plugins_scan_dir\<close>, for the directory entry \<open>nm\<close>.
  \<open>g_snprintf\<close> cuts the file name to \<open>FILENAME_LEN - 1\<close> characters.
\<close>

definition plugins_scan_dir_entry ::
  "env \<Rightarrow> string \<Rightarrow> plugin_load_failure_mode \<Rightarrow> string \<Rightarrow> state \<Rightarrow> state option" where
  "plugins_scan_dir_entry e dirname mode nm s =
     (case strrchr_dot nm of None \<Rightarrow> Some s
      | Some suffix \<Rightarrow>
     if suffix \<noteq> G_MODULE_SUFFIX e then Some s
     else if WIN32 e \<and> take 14 nm = ''nordic_ble.dll'' then Some s
     else
       let filename = take (FILENAME_LEN - 1) (dirname @ G_DIR_SEPARATOR_S e @ nm) in
       case check_if_plugin_exists nm s of None \<Rightarrow> None
       | Some True \<Rightarrow>
           Some (if mode = REPORT_LOAD_FAILURE
                 then report_warning (''The plugin '' @ quoted nm @ '' was found in multiple directories.''
                        @ [CHR 0x0A]) s
                 else s)
       | Some False \<Rightarrow>
      (case g_module_open e filename of
         None \<Rightarrow>
           Some (if mode = REPORT_LOAD_FAILURE
                 then report_failure (''Couldn'' @ [CHR 0x27] @ ''t load module '' @ filename @ '': ''
                        @ g_module_error e filename) s
                 else s)
       | Some handle \<Rightarrow>
      let s1 = s\<lparr>trace := trace s @ [Module_open handle]\<rparr> in
      (case g_module_symbol e handle ''version'' of
         None \<Rightarrow>
           Some (g_module_close handle
                   (report_failure (''The plugin '' @ nm @ '' has no version symbol'') s1))
       | Some gp \<Rightarrow>
      let (new_plug, s2) = g_malloc s1;
          s3 = s2\<lparr>plugin_heap := (plugin_heap s2)(new_plug \<mapsto>
                  \<lparr>p_handle = handle, p_name = nm, p_version = gp, p_types = 0, p_next = None\<rparr>)\<rparr>
      in
      (case g_slist_foreach (plugin_types s3) call_plugin_callback (Some new_plug) s3 of
         None \<Rightarrow> None
       | Some s4 \<Rightarrow>
      (case plugin_heap s4 new_plug of None \<Rightarrow> None
       | Some pl \<Rightarrow>
           if p_types pl = 0 then
             g_free_plugin new_plug
               (g_module_close handle
                  (if mode = REPORT_LOAD_FAILURE
                   then report_failure (''The plugin '' @ quoted nm @ '' has no registration routines'') s4
                   else s4))
           else add_plugin new_plug s4)))))"

fun plugins_scan_dir_loop ::
  "env \<Rightarrow> string \<Rightarrow> plugin_load_failure_mode \<Rightarrow> string list \<Rightarrow> state \<Rightarrow> state option" where
  "plugins_scan_dir_loop e dirname mode [] s = Some s"
| "plugins_scan_dir_loop e dirname mode (nm # files) s =
     (case plugins_scan_dir_entry e dirname mode nm s of None \<Rightarrow> None
      | Some s1 \<Rightarrow> plugins_scan_dir_loop e dirname mode files s1)"

definition plugins_scan_dir :: "env \<Rightarrow> string \<Rightarrow> plugin_load_failure_mode \<Rightarrow> state \<Rightarrow> state option" where
  "plugins_scan_dir e dirname mode s =
     (if \<not> file_test_exists e dirname \<or> \<not> file_test_is_dir e dirname then Some s
      else case ws_dir_open e dirname of None \<Rightarrow> Some s
           | Some files \<Rightarrow> plugins_scan_dir_loop e dirname mode files s)"

subsection \<open>\<open>scan_plugins\<close>\<close>

text \<open>A call of \<open>plugins_scan_dir\<close> from \<open>scan_plugins\<close>, recorded with the place it is made from.\<close>

definition scan_from ::
  "scan_site \<Rightarrow> env \<Rightarrow> string \<Rightarrow> plugin_load_failure_mode \<Rightarrow> state \<Rightarrow> state option" where
  "scan_from site e dirname mode s =
     plugins_scan_dir e dirname mode (s\<lparr>trace := trace s @ [Scan_dir site dirname]\<rparr>)"

text \<open>The loop over the entries of the plugin directory when running from a build directory.\<close>

fun scan_plugins_subdirs ::
  "env \<Rightarrow> string \<Rightarrow> plugin_load_failure_mode \<Rightarrow> string list \<Rightarrow> state \<Rightarrow> state option" where
  "scan_plugins_subdirs e plugin_dir mode [] s = Some s"
| "scan_plugins_subdirs e plugin_dir mode (nm # files) s =
     (if nm = ''.'' \<or> nm = ''..'' then scan_plugins_subdirs e plugin_dir mode files s
      else
        let libs = plugin_dir @ G_DIR_SEPARATOR_S e @ nm @ G_DIR_SEPARATOR_S e @ ''.libs'';
            plugin_dir_path =
              (if test_for_directory e libs \<noteq> EISDIR then plugin_dir @ G_DIR_SEPARATOR_S e @ nm
               else libs)
        in case scan_from Build_subdir e plugin_dir_path mode s of None \<Rightarrow> None
           | Some s1 \<Rightarrow> scan_plugins_subdirs e plugin_dir mode files s1)"

definition scan_plugins :: "env \<Rightarrow> plugin_load_failure_mode \<Rightarrow> state \<Rightarrow> state option" where
  "scan_plugins e mode s =
     (if plugin_list s = None then
        (case get_plugins_dir e of None \<Rightarrow> Some s
         | Some plugin_dir \<Rightarrow>
             Option.bind
               (if running_in_build_directory e then
                  (case ws_dir_open e plugin_dir of None \<Rightarrow> Some s
                   | Some files \<Rightarrow>
                       Option.bind (scan_from Global_dir e plugin_dir mode s)
                         (scan_plugins_subdirs e plugin_dir mode files))
                else scan_from System_dir e (get_plugins_dir_with_version e) mode s)
               (\<lambda>s1. if \<not> started_with_special_privs e
                     then scan_from Personal_dir e (get_plugins_pers_dir_with_version e) mode s1
                     else Some s1))
      else Some s)"

subsection \<open>\<open>plugins_cleanup\<close>\<close>

text \<open>
  The \<open>for\<close> loop of \<open>plugins_cleanup\<close>. A plugin's name is part of its record here, so
  \<open>g_free (cur->name)\<close> and \<open>g_free (cur)\<close> are the one removal from the store.
\<close>

partial_function (option) plugins_cleanup_loop :: "addr option \<Rightarrow> state \<Rightarrow> state option" where
  "plugins_cleanup_loop cur s =
     (case cur of None \<Rightarrow> Some s
      | Some a \<Rightarrow>
          (case plugin_heap s a of None \<Rightarrow> None
           | Some pl \<Rightarrow>
               Option.bind (g_free_plugin a s) (\<lambda>s1. plugins_cleanup_loop (p_next pl) s1)))"

definition free_plugin_type :: "gpointer \<Rightarrow> gpointer \<Rightarrow> state \<Rightarrow> state option" where
  "free_plugin_type p user_data s = g_free_plugin_type p s"

definition plugins_cleanup :: "state \<Rightarrow> state option" where
  "plugins_cleanup s =
     Option.bind (plugins_cleanup_loop (plugin_list s) s) (\<lambda>s1.
     Option.bind (g_slist_foreach (plugin_types s1) free_plugin_type None s1) (\<lambda>s2.
     g_slist_free (plugin_types s2) s2))"


section \<open>Well-formed states\<close>

subsection \<open>Linked lists in the stores\<close>

text \<open>
  \<open>llist nx p as\<close>: following the links \<open>nx\<close> from the pointer \<open>p\<close> visits exactly the
  addresses \<open>as\<close>, each of them allocated, and ends in \<open>NULL\<close>.
\<close>

fun llist :: "(addr \<rightharpoonup> addr option) \<Rightarrow> addr option \<Rightarrow> addr list \<Rightarrow> bool" where
  "llist nx p [] = (p = None)"
| "llist nx p (a # as) = (p = Some a \<and> (case nx a of None \<Rightarrow> False | Some q \<Rightarrow> llist nx q as))"

text \<open>The \<open>next\<close> links of the plugins and of the list cells.\<close>

definition plugin_links :: "(addr \<rightharpoonup> plugin) \<Rightarrow> addr \<rightharpoonup> addr option" where
  "plugin_links h = (\<lambda>a. map_option p_next (h a))"

definition slist_links :: "(addr \<rightharpoonup> gslist) \<Rightarrow> addr \<rightharpoonup> addr option" where
  "slist_links h = (\<lambda>a. map_option gs_next (h a))"

text \<open>The name of the plugin at an address, and the data pointer of a list cell.\<close>

definition name_at :: "(addr \<rightharpoonup> plugin) \<Rightarrow> addr \<Rightarrow> string" where
  "name_at h a = (case h a of None \<Rightarrow> [] | Some pl \<Rightarrow> p_name pl)"

definition data_at :: "(addr \<rightharpoonup> gslist) \<Rightarrow> addr \<Rightarrow> gpointer" where
  "data_at h c = (case h c of None \<Rightarrow> None | Some cell \<Rightarrow> gs_data cell)"

text \<open>What \<open>g_slist_foreach\<close> does on a well-formed list, as a recursion over the data pointers.\<close>

fun foreach_data ::
  "gpointer list \<Rightarrow> (gpointer \<Rightarrow> gpointer \<Rightarrow> state \<Rightarrow> state option) \<Rightarrow> gpointer \<Rightarrow> state \<Rightarrow> state option" where
  "foreach_data [] func user_data s = Some s"
| "foreach_data (d # ds) func user_data s =
     Option.bind (func d user_data s) (foreach_data ds func user_data)"

subsection \<open>The two registries\<close>

text \<open>A plugin record without its link, for comparing registry contents.\<close>

definition unlinked :: "plugin \<Rightarrow> plugin" where
  "unlinked pl = pl\<lparr>p_next := None\<rparr>"

text \<open>Nothing is allocated at or above the next address the allocator hands out.\<close>

definition alloc_ok :: "state \<Rightarrow> bool" where
  "alloc_ok s \<longleftrightarrow>
     (\<forall>a. next_free s \<le> a \<longrightarrow>
        plugin_heap s a = None \<and> type_heap s a = None \<and> slist_heap s a = None)"

text \<open>
  The entries that pass the two filters at the head of the loop of \<open>plugins_scan_dir\<close>:
  the suffix test, and on \<open>WIN32\<close> the exclusion of the Nordic BLE sniffer.
\<close>

definition module_file :: "env \<Rightarrow> string \<Rightarrow> bool" where
  "module_file e nm \<longleftrightarrow>
     strrchr_dot nm = Some (G_MODULE_SUFFIX e) \<and> \<not> (WIN32 e \<and> take 14 nm = ''nordic_ble.dll'')"

text \<open>
  The plugin registry of the state \<open>s\<close> is the list at \<open>plugin_list\<close>: its nodes are at the
  addresses \<open>as\<close> and hold the plugins \<open>ps\<close>, in this order; the names are pairwise
  distinct, every name is that of a module file, and no mask is zero.
\<close>

definition registry_wf :: "env \<Rightarrow> state \<Rightarrow> addr list \<Rightarrow> plugin list \<Rightarrow> bool" where
  "registry_wf e s as ps \<longleftrightarrow>
     llist (plugin_links (plugin_heap s)) (plugin_list s) as
     \<and> map (\<lambda>a. map_option unlinked (plugin_heap s a)) as = map Some ps
     \<and> distinct (map p_name ps)
     \<and> (\<forall>p \<in> set ps. module_file e (p_name p) \<and> p_types p \<noteq> 0)"

text \<open>The plugin type a data pointer of the type list points to.\<close>

definition type_of_data :: "(addr \<rightharpoonup> plugin_type) \<Rightarrow> gpointer \<Rightarrow> plugin_type option" where
  "type_of_data th d = (case d of None \<Rightarrow> None | Some a \<Rightarrow> th a)"

definition type_at :: "state \<Rightarrow> addr \<Rightarrow> plugin_type option" where
  "type_at s c = type_of_data (type_heap s) (data_at (slist_heap s) c)"

text \<open>
  The type registry of the state \<open>s\<close> is the \<open>GSList\<close> at \<open>plugin_types\<close>: its cells are at
  the addresses \<open>cs\<close> and point to the types \<open>ts\<close>, in this order; the \<open>i\<close>-th type has
  \<open>type_val = i\<close>, the counter \<open>type_val\<close> is the number of types, and there are at most 32.
\<close>

definition types_wf :: "state \<Rightarrow> addr list \<Rightarrow> plugin_type list \<Rightarrow> bool" where
  "types_wf s cs ts \<longleftrightarrow>
     llist (slist_links (slist_heap s)) (plugin_types s) cs
     \<and> map (type_at s) cs = map Some ts
     \<and> map (\<lambda>t. unat (pt_type_val t)) ts = [0..<length ts]
     \<and> unat (type_val s) = length ts \<and> length ts \<le> 32"

subsection \<open>The registry as a list\<close>

text \<open>
  The mask that the classification pass computes for the module \<open>h\<close>, as a fold over the
  registered types.
\<close>

definition type_bit :: "plugin_type \<Rightarrow> 32 word" where
  "type_bit t = push_bit (unat (pt_type_val t)) 1"

definition classify_from :: "plugin_type list \<Rightarrow> gmodule \<Rightarrow> 32 word \<Rightarrow> 32 word" where
  "classify_from ts h m = fold (\<lambda>t m. if pt_callback t h then m OR type_bit t else m) ts m"

definition classify :: "plugin_type list \<Rightarrow> gmodule \<Rightarrow> 32 word" where
  "classify ts h = classify_from ts h 0"

text \<open>Two states with the same type registry.\<close>

definition same_types :: "state \<Rightarrow> state \<Rightarrow> bool" where
  "same_types s s' \<longleftrightarrow>
     plugin_types s' = plugin_types s \<and> type_heap s' = type_heap s
     \<and> slist_heap s' = slist_heap s \<and> type_val s' = type_val s"

text \<open>The file name that \<open>g_snprintf\<close> builds in \<open>plugins_scan_dir\<close>.\<close>

definition plugin_filename :: "env \<Rightarrow> string \<Rightarrow> string \<Rightarrow> string" where
  "plugin_filename e dirname nm = take (FILENAME_LEN - 1) (dirname @ G_DIR_SEPARATOR_S e @ nm)"

text \<open>The calls of \<open>plugins_scan_dir\<close> recorded in the trace, in order.\<close>

definition scan_calls :: "state \<Rightarrow> (scan_site \<times> string) list" where
  "scan_calls s = concat (map (\<lambda>ev. case ev of Scan_dir site d \<Rightarrow> [(site, d)] | _ \<Rightarrow> []) (trace s))"

text \<open>
  The plugin that one pass of the loop body of \<open>plugins_scan_dir\<close> appends to a registry
  with the given names, if it appends one.
\<close>

definition candidate :: "env \<Rightarrow> plugin_type list \<Rightarrow> string \<Rightarrow> string \<Rightarrow> string list \<Rightarrow> plugin option" where
  "candidate e ts dirname nm names =
     (if \<not> module_file e nm \<or> nm \<in> set names then None
      else case g_module_open e (plugin_filename e dirname nm) of None \<Rightarrow> None
           | Some h \<Rightarrow>
               (case g_module_symbol e h ''version'' of None \<Rightarrow> None
                | Some v \<Rightarrow>
                    if classify ts h = 0 then None
                    else Some \<lparr>p_handle = h, p_name = nm, p_version = v,
                                p_types = classify ts h, p_next = None\<rparr>))"

definition scan_entry_abs ::
  "env \<Rightarrow> plugin_type list \<Rightarrow> string \<Rightarrow> string \<Rightarrow> plugin list \<Rightarrow> plugin list" where
  "scan_entry_abs e ts dirname nm ps =
     (case candidate e ts dirname nm (map p_name ps) of None \<Rightarrow> ps | Some p \<Rightarrow> ps @ [p])"

text \<open>
  How often the trace opens the module \<open>h\<close> minus how often it closes it; and the balance
  of a state: each module is open once for every registered plugin that holds its handle.
\<close>

definition open_count :: "event list \<Rightarrow> gmodule \<Rightarrow> int" where
  "open_count tr h = int (count_list tr (Module_open h)) - int (count_list tr (Module_close h))"

definition handles_ok :: "state \<Rightarrow> plugin list \<Rightarrow> bool" where
  "handles_ok s ps \<longleftrightarrow> (\<forall>h. open_count (trace s) h = int (count_list (map p_handle ps) h))"

text \<open>The invariant of the states before cleanup.\<close>

definition state_wf ::
  "env \<Rightarrow> state \<Rightarrow> addr list \<Rightarrow> plugin list \<Rightarrow> addr list \<Rightarrow> plugin_type list \<Rightarrow> bool" where
  "state_wf e s as ps cs ts \<longleftrightarrow>
     registry_wf e s as ps \<and> types_wf s cs ts \<and> alloc_ok s \<and> handles_ok s ps"

text \<open>\<open>plugins_scan_dir\<close> and \<open>scan_plugins\<close>, on the registry as a list.\<close>

definition plugins_scan_dir_abs ::
  "env \<Rightarrow> plugin_type list \<Rightarrow> string \<Rightarrow> plugin list \<Rightarrow> plugin list" where
  "plugins_scan_dir_abs e ts dirname ps =
     (if \<not> file_test_exists e dirname \<or> \<not> file_test_is_dir e dirname then ps
      else case ws_dir_open e dirname of None \<Rightarrow> ps
           | Some files \<Rightarrow> fold (scan_entry_abs e ts dirname) files ps)"

text \<open>
  The directory scanned for the entry \<open>nm\<close> of the plugin directory of a build tree, and
  the calls of \<open>plugins_scan_dir\<close> that one scanning pass of \<open>scan_plugins\<close> makes.
\<close>

definition subdir_path :: "env \<Rightarrow> string \<Rightarrow> string \<Rightarrow> string" where
  "subdir_path e plugin_dir nm =
     (if test_for_directory e (plugin_dir @ G_DIR_SEPARATOR_S e @ nm @ G_DIR_SEPARATOR_S e @ ''.libs'')
           \<noteq> EISDIR
      then plugin_dir @ G_DIR_SEPARATOR_S e @ nm
      else plugin_dir @ G_DIR_SEPARATOR_S e @ nm @ G_DIR_SEPARATOR_S e @ ''.libs'')"

definition subdir_calls :: "env \<Rightarrow> string \<Rightarrow> string list \<Rightarrow> (scan_site \<times> string) list" where
  "subdir_calls e plugin_dir files =
     map (\<lambda>nm. (Build_subdir, subdir_path e plugin_dir nm))
       (filter (\<lambda>nm. nm \<noteq> ''.'' \<and> nm \<noteq> ''..'') files)"

definition scan_plugins_dirs :: "env \<Rightarrow> (scan_site \<times> string) list" where
  "scan_plugins_dirs e =
     (case get_plugins_dir e of None \<Rightarrow> []
      | Some plugin_dir \<Rightarrow>
          (if running_in_build_directory e then
             (case ws_dir_open e plugin_dir of None \<Rightarrow> []
              | Some files \<Rightarrow> (Global_dir, plugin_dir) # subdir_calls e plugin_dir files)
           else [(System_dir, get_plugins_dir_with_version e)])
          @ (if \<not> started_with_special_privs e
             then [(Personal_dir, get_plugins_pers_dir_with_version e)] else []))"

definition scan_dirs_abs ::
  "env \<Rightarrow> plugin_type list \<Rightarrow> (scan_site \<times> string) list \<Rightarrow> plugin list \<Rightarrow> plugin list" where
  "scan_dirs_abs e ts calls ps = fold (\<lambda>c. plugins_scan_dir_abs e ts (snd c)) calls ps"

definition scan_plugins_abs :: "env \<Rightarrow> plugin_type list \<Rightarrow> plugin list \<Rightarrow> plugin list" where
  "scan_plugins_abs e ts ps = (if ps = [] then scan_dirs_abs e ts (scan_plugins_dirs e) ps else ps)"

text \<open>The addresses of the types that the cells \<open>cs\<close> point to.\<close>

definition data_addrs :: "state \<Rightarrow> addr list \<Rightarrow> addr set" where
  "data_addrs s cs = {a. Some a \<in> set (map (data_at (slist_heap s)) cs)}"

subsection \<open>An example installation\<close>

text \<open>
  An installed layout with a system directory holding a text file and three modules
  (\<open>foo.so\<close>; \<open>bar.so\<close>, which has no \<open>version\<close> symbol; \<open>baz.so\<close>, which no type claims),
  a personal directory holding another \<open>foo.so\<close>, and a directory \<open>/q\<close> holding
  only \<open>bar.so\<close>. The parameter says whether the process started with special privileges.
\<close>

definition demo_env :: "bool \<Rightarrow> env" where
  "demo_env privs = \<lparr>
     get_plugins_dir = Some ''/p'',
     running_in_build_directory = False,
     get_plugins_dir_with_version = ''/p/2.5'',
     get_plugins_pers_dir_with_version = ''/h/2.5'',
     started_with_special_privs = privs,
     file_test_exists = (\<lambda>d. d = ''/p/2.5'' \<or> d = ''/h/2.5'' \<or> d = ''/q''),
     file_test_is_dir = (\<lambda>d. d = ''/p/2.5'' \<or> d = ''/h/2.5'' \<or> d = ''/q''),
     ws_dir_open = (\<lambda>d. if d = ''/p/2.5'' then Some [''README'', ''foo.so'', ''bar.so'', ''baz.so'']
                        else if d = ''/h/2.5'' then Some [''foo.so'']
                        else if d = ''/q'' then Some [''bar.so'']
                        else None),
     test_for_directory = (\<lambda>d. 0),
     g_module_open = (\<lambda>f. if f = ''/p/2.5/foo.so'' then Some 1
                          else if f = ''/p/2.5/bar.so'' \<or> f = ''/q/bar.so'' then Some 2
                          else if f = ''/p/2.5/baz.so'' then Some 3
                          else if f = ''/h/2.5/foo.so'' then Some 4
                          else None),
     g_module_error = (\<lambda>f. ''cannot open shared object file''),
     g_module_symbol = (\<lambda>h sym. if sym = ''version'' \<and> h \<noteq> 2 then Some ''1.0'' else None),
     G_MODULE_SUFFIX = ''so'',
     G_DIR_SEPARATOR_S = ''/'',
     WIN32 = False \<rparr>"

text \<open>
  One registered type, which claims every module but \<open>baz.so\<close>; the state after
  registering it; and the state after a silent, privileged scan from there.
\<close>

definition dissector_type :: plugin_type where
  "dissector_type = \<lparr>pt_type = ''dissector'', pt_callback = (\<lambda>h. h \<noteq> 3), pt_type_val = 0\<rparr>"

definition one_type_state :: state where
  "one_type_state = \<lparr> plugin_list = None, plugin_types = Some 1, type_val = 1,
     plugin_heap = Map.empty, type_heap = [0 \<mapsto> dissector_type],
     slist_heap = [1 \<mapsto> \<lparr>gs_data = Some 0, gs_next = None\<rparr>],
     next_free = 2, trace = [] \<rparr>"

definition foo_plugin :: plugin where
  "foo_plugin = \<lparr>p_handle = 1, p_name = ''foo.so'', p_version = ''1.0'', p_types = 1, p_next = None\<rparr>"

definition scanned_state :: state where
  "scanned_state = \<lparr> plugin_list = Some 2, plugin_types = Some 1, type_val = 1,
     plugin_heap = [2 \<mapsto> foo_plugin], type_heap = [0 \<mapsto> dissector_type],
     slist_heap = [1 \<mapsto> \<lparr>gs_data = Some 0, gs_next = None\<rparr>],
     next_free = 4,
     trace = [Scan_dir System_dir ''/p/2.5'', Module_open 1, Module_open 2,
              Report_failure ''The plugin bar.so has no version symbol'', Module_close 2,
              Module_open 3, Module_close 3] \<rparr>"

subsection \<open>Reachable states\<close>

text \<open>
  The states that type registration and discovery, in any order and any number of times,
  lead to from the initial state.
\<close>

inductive reachable :: "env \<Rightarrow> state \<Rightarrow> bool" for e :: env where
  start: "reachable e init_state"
| add_type: "reachable e s \<Longrightarrow> add_plugin_type type callback s = Some s' \<Longrightarrow> reachable e s'"
| scan: "reachable e s \<Longrightarrow> scan_plugins e mode s = Some s' \<Longrightarrow> reachable e s'"

text \<open>\<open>n\<close> calls of \<open>scan_plugins\<close> in a row, and the registration of a list of types.\<close>

fun scan_plugins_times ::
  "nat \<Rightarrow> env \<Rightarrow> plugin_load_failure_mode \<Rightarrow> state \<Rightarrow> state option" where
  "scan_plugins_times 0 e mode s = Some s"
| "scan_plugins_times (Suc n) e mode s =
     Option.bind (scan_plugins e mode s) (scan_plugins_times n e mode)"

fun add_plugin_types :: "(string \<times> (gmodule \<Rightarrow> bool)) list \<Rightarrow> state \<Rightarrow> state option" where
  "add_plugin_types [] s = Some s"
| "add_plugin_types (r # rs) s = Option.bind (add_plugin_type (fst r) (snd r) s) (add_plugin_types rs)"

text \<open>The state after 32 registrations.\<close>

definition full_state :: state where
  "full_state =
     (case add_plugin_types (replicate 32 (''t'', \<lambda>h. True)) init_state of
        None \<Rightarrow> init_state | Some s \<Rightarrow> s)"

text \<open>A module handle that was opened more often than it was closed.\<close>

definition still_open :: "state \<Rightarrow> gmodule \<Rightarrow> bool" where
  "still_open s h \<longleftrightarrow> 0 < open_count (trace s) h"

text \<open>The example state after \<open>plugins_cleanup\<close>.\<close>

definition cleaned_state :: state where
  "cleaned_state = scanned_state\<lparr>plugin_heap := Map.empty, type_heap := Map.empty,
     slist_heap := Map.empty\<rparr>"

section \<open>Lemmas\<close>

subsection \<open>Linked lists\<close>

lemma llist_Cons:
  "llist nx p (a # as) \<longleftrightarrow> p = Some a \<and> (\<exists>q. nx a = Some q \<and> llist nx q as)"
  by (simp split: option.splits)

declare llist.simps(2) [simp del]
declare llist_Cons [simp]

lemma llist_None: "llist nx None as \<longleftrightarrow> as = []"
  by (cases as) auto

lemma llist_cong: "(\<And>a. a \<in> set as \<Longrightarrow> nx a = nx' a) \<Longrightarrow> llist nx p as = llist nx' p as"
  by (induction as arbitrary: p) auto

lemma llist_unique: "llist nx p as \<Longrightarrow> llist nx p bs \<Longrightarrow> as = bs"
proof (induction as arbitrary: p bs)
  case Nil
  then show ?case by (simp add: llist_None)
next
  case (Cons a as)
  then show ?case by (cases bs) auto
qed

lemma llist_suffix: "llist nx p (as @ b # bs) \<Longrightarrow> llist nx (Some b) (b # bs)"
  by (induction as arbitrary: p) auto

lemma llist_head_notin: assumes "llist nx p (a # as)" shows "a \<notin> set as"
proof
  assume "a \<in> set as"
  then obtain xs ys where as: "as = xs @ a # ys" by (auto simp: in_set_conv_decomp)
  from assms have p: "p = Some a" by simp
  from assms as have "llist nx p ((a # xs) @ a # ys)" by simp
  then have "llist nx (Some a) (a # ys)" by (rule llist_suffix)
  with assms p have "a # as = a # ys" by (auto dest: llist_unique)
  with as show False by simp
qed

lemma llist_distinct: "llist nx p as \<Longrightarrow> distinct as"
proof (induction as arbitrary: p)
  case Nil
  show ?case by simp
next
  case (Cons a as)
  have "a \<notin> set as" using Cons.prems by (rule llist_head_notin)
  moreover have "distinct as" using Cons by auto
  ultimately show ?case by simp
qed

lemma llist_allocated: "llist nx p as \<Longrightarrow> a \<in> set as \<Longrightarrow> nx a \<noteq> None"
  by (induction as arbitrary: p) auto

lemma llist_snoc:
  assumes "llist nx p as" and "as \<noteq> []"
    and "nx' (last as) = Some (Some n)" and "nx' n = Some None"
    and "\<And>a. a \<in> set (butlast as) \<Longrightarrow> nx' a = nx a"
  shows "llist nx' p (as @ [n])"
  using assms
proof (induction as arbitrary: p)
  case Nil
  then show ?case by simp
next
  case (Cons a as)
  from Cons.prems(1) obtain q where q: "p = Some a" "nx a = Some q" "llist nx q as"
    by auto
  show ?case
  proof (cases "as = []")
    case True
    with Cons.prems q show ?thesis by simp
  next
    case False
    have "llist nx' q (as @ [n])"
      using Cons.IH[OF q(3) False] Cons.prems False by simp
    moreover have "nx' a = nx a" using Cons.prems(5) False by simp
    ultimately show ?thesis using q by simp
  qed
qed

subsection \<open>The list traversals\<close>

lemma plugin_links_Some:
  "plugin_links h a = Some q \<longleftrightarrow> (\<exists>pl. h a = Some pl \<and> p_next pl = q)"
  by (auto simp: plugin_links_def)

lemma slist_links_Some:
  "slist_links h a = Some q \<longleftrightarrow> (\<exists>cell. h a = Some cell \<and> gs_next cell = q)"
  by (auto simp: slist_links_def)

lemma add_plugin_last_llist:
  "llist (plugin_links h) (Some a) as \<Longrightarrow> add_plugin_last h a = Some (last as)"
proof (induction as arbitrary: a)
  case Nil
  then show ?case by simp
next
  case (Cons b bs)
  then obtain pl where pl: "a = b" "h a = Some pl" "llist (plugin_links h) (p_next pl) bs"
    by (auto simp: plugin_links_Some)
  show ?case
  proof (cases "p_next pl")
    case None
    with pl have "bs = []" by (simp add: llist_None)
    with pl None show ?thesis by (subst add_plugin_last.simps) simp
  next
    case (Some c)
    with pl have "bs \<noteq> []" by auto
    moreover have "add_plugin_last h c = Some (last bs)"
      using Cons.IH pl Some by simp
    ultimately show ?thesis using pl Some by (subst add_plugin_last.simps) simp
  qed
qed

lemma g_slist_last_llist:
  "llist (slist_links h) (Some a) as \<Longrightarrow> g_slist_last h a = Some (last as)"
proof (induction as arbitrary: a)
  case Nil
  then show ?case by simp
next
  case (Cons b bs)
  then obtain cell where cell: "a = b" "h a = Some cell" "llist (slist_links h) (gs_next cell) bs"
    by (auto simp: slist_links_Some)
  show ?case
  proof (cases "gs_next cell")
    case None
    with cell have "bs = []" by (simp add: llist_None)
    with cell None show ?thesis by (subst g_slist_last.simps) simp
  next
    case (Some c)
    with cell have "bs \<noteq> []" by auto
    moreover have "g_slist_last h c = Some (last bs)"
      using Cons.IH cell Some by simp
    ultimately show ?thesis using cell Some by (subst g_slist_last.simps) simp
  qed
qed

lemma check_if_plugin_exists_from_llist:
  "llist (plugin_links h) p as \<Longrightarrow>
   check_if_plugin_exists_from h p nm = Some (nm \<in> set (map (name_at h) as))"
proof (induction as arbitrary: p)
  case Nil
  then show ?case by (subst check_if_plugin_exists_from.simps) simp
next
  case (Cons a as)
  then obtain pl where pl: "p = Some a" "h a = Some pl" "llist (plugin_links h) (p_next pl) as"
    by (auto simp: plugin_links_Some)
  have "check_if_plugin_exists_from h (p_next pl) nm = Some (nm \<in> set (map (name_at h) as))"
    using Cons.IH pl by simp
  then show ?case using pl
    by (subst check_if_plugin_exists_from.simps) (auto simp: name_at_def)
qed

lemma plugins_cleanup_loop_llist:
  "llist (plugin_links (plugin_heap s)) p as \<Longrightarrow>
   plugins_cleanup_loop p s = Some (s\<lparr>plugin_heap := plugin_heap s |` (- set as)\<rparr>)"
proof (induction as arbitrary: p s)
  case Nil
  then show ?case by (subst plugins_cleanup_loop.simps) (simp add: restrict_map_def)
next
  case (Cons a as)
  then obtain pl where pl: "p = Some a" "plugin_heap s a = Some pl"
      "llist (plugin_links (plugin_heap s)) (p_next pl) as"
    by (auto simp: plugin_links_Some)
  have na: "a \<notin> set as" using Cons.prems by (rule llist_head_notin)
  let ?s1 = "s\<lparr>plugin_heap := (plugin_heap s)(a := None)\<rparr>"
  have "llist (plugin_links (plugin_heap ?s1)) (p_next pl) as"
    using pl(3) na by (subst llist_cong[where nx'="plugin_links (plugin_heap s)"])
      (auto simp: plugin_links_def)
  then have "plugins_cleanup_loop (p_next pl) ?s1
      = Some (?s1\<lparr>plugin_heap := plugin_heap ?s1 |` (- set as)\<rparr>)"
    by (rule Cons.IH)
  moreover have "(plugin_heap s)(a := None) |` (- set as) = plugin_heap s |` (- set (a # as))"
    by (rule ext) (simp add: restrict_map_def)
  ultimately show ?case using pl
    by (subst plugins_cleanup_loop.simps) (simp add: g_free_plugin_def)
qed

lemma g_slist_free_llist:
  "llist (slist_links (slist_heap s)) p cs \<Longrightarrow>
   g_slist_free p s = Some (s\<lparr>slist_heap := slist_heap s |` (- set cs)\<rparr>)"
proof (induction cs arbitrary: p s)
  case Nil
  then show ?case by (subst g_slist_free.simps) (simp add: restrict_map_def)
next
  case (Cons c cs)
  then obtain cell where cell: "p = Some c" "slist_heap s c = Some cell"
      "llist (slist_links (slist_heap s)) (gs_next cell) cs"
    by (auto simp: slist_links_Some)
  have nc: "c \<notin> set cs" using Cons.prems by (rule llist_head_notin)
  let ?s1 = "s\<lparr>slist_heap := (slist_heap s)(c := None)\<rparr>"
  have "llist (slist_links (slist_heap ?s1)) (gs_next cell) cs"
    using cell(3) nc by (subst llist_cong[where nx'="slist_links (slist_heap s)"])
      (auto simp: slist_links_def)
  then have "g_slist_free (gs_next cell) ?s1
      = Some (?s1\<lparr>slist_heap := slist_heap ?s1 |` (- set cs)\<rparr>)"
    by (rule Cons.IH)
  moreover have "(slist_heap s)(c := None) |` (- set cs) = slist_heap s |` (- set (c # cs))"
    by (rule ext) (simp add: restrict_map_def)
  ultimately show ?case using cell
    by (subst g_slist_free.simps) simp
qed

lemma g_slist_foreach_llist:
  assumes "llist (slist_links (slist_heap s)) p cs"
    and "\<And>d t t'. func d u t = Some t' \<Longrightarrow> slist_heap t' = slist_heap t"
  shows "g_slist_foreach p func u s = foreach_data (map (data_at (slist_heap s)) cs) func u s"
  using assms(1)
proof (induction cs arbitrary: p s)
  case Nil
  then show ?case by (subst g_slist_foreach.simps) simp
next
  case (Cons c cs)
  then obtain cell where cell: "p = Some c" "slist_heap s c = Some cell"
      "llist (slist_links (slist_heap s)) (gs_next cell) cs"
    by (auto simp: slist_links_Some)
  show ?case
  proof (cases "func (gs_data cell) u s")
    case None
    with cell show ?thesis by (subst g_slist_foreach.simps) (simp add: data_at_def)
  next
    case (Some s1)
    then have h: "slist_heap s1 = slist_heap s" by (rule assms(2))
    with cell have "g_slist_foreach (gs_next cell) func u s1
        = foreach_data (map (data_at (slist_heap s1)) cs) func u s1"
      by (intro Cons.IH) simp
    with cell Some h show ?thesis by (subst g_slist_foreach.simps) (simp add: data_at_def)
  qed
qed

subsection \<open>Type registration\<close>

lemma type_of_data_simps [simp]:
  "type_of_data th None = None" "type_of_data th (Some a) = th a"
  by (simp_all add: type_of_data_def)

lemma llist_below:
  assumes "llist nx p as" and "\<And>a. n \<le> a \<Longrightarrow> nx a = None" and "a \<in> set as"
  shows "a < n"
  using llist_allocated[OF assms(1,3)] assms(2)[of a] by (cases "n \<le> a") auto

lemma alloc_ok_type: "alloc_ok s \<Longrightarrow> type_heap s d = Some y \<Longrightarrow> d < next_free s"
  by (rule ccontr) (auto simp: alloc_ok_def not_less)

lemma alloc_ok_plugin: "alloc_ok s \<Longrightarrow> plugin_heap s d = Some y \<Longrightarrow> d < next_free s"
  by (rule ccontr) (auto simp: alloc_ok_def not_less)

lemma alloc_ok_slist: "alloc_ok s \<Longrightarrow> slist_heap s d = Some y \<Longrightarrow> d < next_free s"
  by (rule ccontr) (auto simp: alloc_ok_def not_less)

lemma add_plugin_type_wf:
  assumes wf: "types_wf s cs ts" and al: "alloc_ok s" and lt: "length ts < 32"
  shows "\<exists>s'. add_plugin_type ty cb s = Some s'
     \<and> types_wf s' (cs @ [Suc (next_free s)])
          (ts @ [\<lparr>pt_type = ty, pt_callback = cb, pt_type_val = of_nat (length ts)\<rparr>])
     \<and> alloc_ok s' \<and> plugin_heap s' = plugin_heap s \<and> plugin_list s' = plugin_list s
     \<and> trace s' = trace s \<and> next_free s' = Suc (Suc (next_free s))
     \<and> plugin_types s' \<noteq> None \<and> (plugin_types s \<noteq> None \<longrightarrow> plugin_types s' = plugin_types s)"
proof -
  let ?n = "next_free s"
  let ?T = "\<lparr>pt_type = ty, pt_callback = cb, pt_type_val = type_val s\<rparr>"
  let ?th = "(type_heap s)(?n \<mapsto> ?T)"
  let ?sh = "(slist_heap s)(Suc ?n \<mapsto> \<lparr>gs_data = Some ?n, gs_next = None\<rparr>)"
  from wf have ll: "llist (slist_links (slist_heap s)) (plugin_types s) cs"
    and ta: "map (type_at s) cs = map Some ts"
    and tv: "map (\<lambda>t. unat (pt_type_val t)) ts = [0..<length ts]"
    and cnt: "unat (type_val s) = length ts"
    by (simp_all add: types_wf_def)
  have len: "length cs = length ts" using ta by (metis length_map)
  have tvs: "type_val s = of_nat (length ts)" using cnt by (metis of_nat_unat ucast_id)
  have nge: "\<not> 32 \<le> type_val s" using cnt lt by (simp add: word_le_nat_alt)
  have cs_lt: "\<And>c. c \<in> set cs \<Longrightarrow> c < ?n"
    using llist_below[OF ll] al by (auto simp: alloc_ok_def slist_links_def)
  have ds_lt: "\<And>d. type_heap s d \<noteq> None \<Longrightarrow> d < ?n"
    using al by (auto dest: alloc_ok_type)
  have fresh: "Suc ?n \<notin> set cs" using cs_lt by fastforce
  have lastc: "\<exists>cell. slist_heap s (last cs) = Some cell" "last cs \<noteq> Suc ?n" if "cs \<noteq> []"
  proof -
    have m: "last cs \<in> set cs" using that by simp
    from llist_allocated[OF ll m] show "\<exists>cell. slist_heap s (last cs) = Some cell"
      by (auto simp: slist_links_def)
    from m fresh show "last cs \<noteq> Suc ?n" by auto
  qed
  define sh' where "sh' = (if cs = [] then ?sh
      else ?sh(last cs \<mapsto> (the (slist_heap s (last cs)))\<lparr>gs_next := Some (Suc ?n)\<rparr>))"
  define s' where "s' = s\<lparr>next_free := Suc (Suc ?n), type_heap := ?th, slist_heap := sh',
      plugin_types := (if cs = [] then Some (Suc ?n) else plugin_types s),
      type_val := type_val s + 1\<rparr>"
  have run: "add_plugin_type ty cb s = Some s'"
  proof (cases "cs = []")
    case True
    with ll have "plugin_types s = None" by simp
    with True nge show ?thesis
      by (simp add: add_plugin_type_def g_slist_append_def g_malloc_def s'_def sh'_def)
  next
    case False
    with ll obtain c where c: "plugin_types s = Some c" by (cases cs) auto
    have "llist (slist_links ?sh) (Some c) cs"
      using ll c fresh by (subst llist_cong[where nx'="slist_links (slist_heap s)"])
        (auto simp: slist_links_def)
    then have last: "g_slist_last ?sh c = Some (last cs)" by (rule g_slist_last_llist)
    from lastc[OF False] obtain cell where cell: "slist_heap s (last cs) = Some cell"
      and ne: "last cs \<noteq> Suc ?n" by auto
    with False nge c last show ?thesis
      by (simp add: add_plugin_type_def g_slist_append_def g_malloc_def s'_def sh'_def)
  qed
  have l': "llist (slist_links sh') (plugin_types s') (cs @ [Suc ?n])"
  proof (cases "cs = []")
    case True
    then show ?thesis by (simp add: s'_def sh'_def slist_links_def)
  next
    case False
    from lastc[OF False] obtain cell where cell: "slist_heap s (last cs) = Some cell"
      and ne: "last cs \<noteq> Suc ?n" by auto
    have "llist (slist_links sh') (plugin_types s) (cs @ [Suc ?n])"
    proof (rule llist_snoc[OF ll False])
      show "slist_links sh' (last cs) = Some (Some (Suc ?n))"
        using False cell by (simp add: sh'_def slist_links_def)
      show "slist_links sh' (Suc ?n) = Some None"
        using False ne by (simp add: sh'_def slist_links_def)
      fix a assume "a \<in> set (butlast cs)"
      then have "a \<in> set cs" "a \<noteq> last cs"
        using llist_distinct[OF ll] False
        by (auto dest: in_set_butlastD) (metis append_butlast_last_id distinct_butlast not_distinct_conv_prefix snoc_eq_iff_butlast)
      then show "slist_links sh' a = slist_links (slist_heap s) a"
        using False fresh by (auto simp: sh'_def slist_links_def)
    qed
    with False show ?thesis by (simp add: s'_def)
  qed
  have old: "type_at s' c = type_at s c" if "c \<in> set cs" for c
  proof -
    from that ta obtain t where t: "type_at s c = Some t"
      by (metis (no_types, lifting) in_set_conv_nth len length_map nth_map)
    then obtain d where d: "data_at (slist_heap s) c = Some d" "type_heap s d = Some t"
      by (cases "data_at (slist_heap s) c") (auto simp: type_at_def)
    have "c \<noteq> Suc ?n" using that fresh by auto
    then have "data_at sh' c = Some d"
      using d(1) by (auto simp: sh'_def data_at_def split: option.splits)
    moreover have "d \<noteq> ?n" using ds_lt[of d] d(2) by auto
    ultimately show ?thesis using d t by (simp add: type_at_def s'_def)
  qed
  have new: "type_at s' (Suc ?n) = Some ?T"
    using fresh by (auto simp: type_at_def s'_def sh'_def data_at_def)
  have ta': "map (type_at s') (cs @ [Suc ?n]) = map Some (ts @ [?T])"
    using old new ta by (simp cong: map_cong)
  have cnt': "unat (type_val s') = Suc (length ts)"
    using cnt lt by (simp add: s'_def unat_word_ariths)
  have al': "alloc_ok s'"
  proof -
    have "last cs < ?n" if "cs \<noteq> []" using cs_lt[of "last cs"] that by simp
    then show ?thesis using al by (auto simp: alloc_ok_def s'_def sh'_def)
  qed
  have twf: "types_wf s' (cs @ [Suc ?n])
      (ts @ [\<lparr>pt_type = ty, pt_callback = cb, pt_type_val = of_nat (length ts)\<rparr>])"
    using l' ta' tv cnt cnt' lt tvs by (simp add: types_wf_def s'_def)
  have pt1: "plugin_types s' \<noteq> None" using ll by (cases cs) (auto simp: s'_def)
  have pt2: "plugin_types s \<noteq> None \<longrightarrow> plugin_types s' = plugin_types s"
    using ll by (cases cs) (auto simp: s'_def)
  have frame: "plugin_heap s' = plugin_heap s \<and> plugin_list s' = plugin_list s
     \<and> trace s' = trace s \<and> next_free s' = Suc (Suc (next_free s))"
    by (simp add: s'_def)
  show ?thesis using run twf al' frame pt1 pt2 by blast
qed

subsection \<open>Classification\<close>

lemma types_wf_frame: "same_types s s' \<Longrightarrow> types_wf s cs ts \<Longrightarrow> types_wf s' cs ts"
proof -
  assume st: "same_types s s'" and wf: "types_wf s cs ts"
  have "type_at s' = type_at s"
    using st by (intro ext) (simp add: same_types_def type_at_def)
  with st wf show ?thesis by (simp add: same_types_def types_wf_def)
qed

lemma call_plugin_callback_slist:
  "call_plugin_callback d u t = Some t' \<Longrightarrow> slist_heap t' = slist_heap t"
  by (auto simp: call_plugin_callback_def split: option.splits if_splits)

lemma classify_from_simps [simp]:
  "classify_from [] h m = m"
  "classify_from (t # ts) h m = classify_from ts h (if pt_callback t h then m OR type_bit t else m)"
  by (simp_all add: classify_from_def)

lemma foreach_data_classify:
  assumes "map (type_of_data (type_heap s)) ds = map Some ts"
    and "plugin_heap s u = Some pl"
  shows "foreach_data ds call_plugin_callback (Some u) s
     = Some (s\<lparr>plugin_heap := (plugin_heap s)(u \<mapsto>
          pl\<lparr>p_types := classify_from ts (p_handle pl) (p_types pl)\<rparr>)\<rparr>)"
  using assms
proof (induction ds arbitrary: ts s pl)
  case Nil
  then show ?case by (simp add: map_upd_triv)
next
  case (Cons d ds)
  from Cons.prems(1) obtain t ts' a where ts: "ts = t # ts'" "d = Some a" "type_heap s a = Some t"
    and rest: "map (type_of_data (type_heap s)) ds = map Some ts'"
    by (cases ts; cases d) auto
  show ?case
  proof (cases "pt_callback t (p_handle pl)")
    case True
    let ?pl1 = "pl\<lparr>p_types := p_types pl OR type_bit t\<rparr>"
    let ?s1 = "s\<lparr>plugin_heap := (plugin_heap s)(u \<mapsto> ?pl1)\<rparr>"
    have step: "call_plugin_callback d (Some u) s = Some ?s1"
      using ts Cons.prems(2) True by (simp add: call_plugin_callback_def type_bit_def)
    have "foreach_data ds call_plugin_callback (Some u) ?s1
       = Some (?s1\<lparr>plugin_heap := (plugin_heap ?s1)(u \<mapsto>
            ?pl1\<lparr>p_types := classify_from ts' (p_handle ?pl1) (p_types ?pl1)\<rparr>)\<rparr>)"
      using rest by (intro Cons.IH) simp_all
    then have ih: "foreach_data ds call_plugin_callback (Some u) ?s1
       = Some (s\<lparr>plugin_heap := (plugin_heap s)(u \<mapsto>
            pl\<lparr>p_types := classify_from ts' (p_handle pl) (p_types pl OR type_bit t)\<rparr>)\<rparr>)"
      by simp
    have "foreach_data (d # ds) call_plugin_callback (Some u) s
        = foreach_data ds call_plugin_callback (Some u) ?s1"
      using step by simp
    also note ih
    also have "classify_from ts' (p_handle pl) (p_types pl OR type_bit t)
        = classify_from ts (p_handle pl) (p_types pl)"
      using ts True by simp
    finally show ?thesis .
  next
    case False
    have step: "call_plugin_callback d (Some u) s = Some s"
      using ts Cons.prems(2) False by (simp add: call_plugin_callback_def)
    have "foreach_data ds call_plugin_callback (Some u) s
       = Some (s\<lparr>plugin_heap := (plugin_heap s)(u \<mapsto>
            pl\<lparr>p_types := classify_from ts' (p_handle pl) (p_types pl)\<rparr>)\<rparr>)"
      using rest Cons.prems(2) by (intro Cons.IH)
    then have "foreach_data (d # ds) call_plugin_callback (Some u) s
       = Some (s\<lparr>plugin_heap := (plugin_heap s)(u \<mapsto>
            pl\<lparr>p_types := classify_from ts' (p_handle pl) (p_types pl)\<rparr>)\<rparr>)"
      using step by simp
    also have "classify_from ts' (p_handle pl) (p_types pl)
        = classify_from ts (p_handle pl) (p_types pl)"
      using ts False by simp
    finally show ?thesis .
  qed
qed

lemma g_slist_foreach_classify:
  assumes "types_wf s cs ts" and "plugin_heap s u = Some pl"
  shows "g_slist_foreach (plugin_types s) call_plugin_callback (Some u) s
     = Some (s\<lparr>plugin_heap := (plugin_heap s)(u \<mapsto>
          pl\<lparr>p_types := classify_from ts (p_handle pl) (p_types pl)\<rparr>)\<rparr>)"
proof -
  from assms(1) have ll: "llist (slist_links (slist_heap s)) (plugin_types s) cs"
    and ta: "map (type_at s) cs = map Some ts"
    by (simp_all add: types_wf_def)
  have "g_slist_foreach (plugin_types s) call_plugin_callback (Some u) s
      = foreach_data (map (data_at (slist_heap s)) cs) call_plugin_callback (Some u) s"
    using ll by (rule g_slist_foreach_llist) (rule call_plugin_callback_slist)
  moreover have "map (type_of_data (type_heap s))
      (map (data_at (slist_heap s)) cs) = map Some ts"
  proof -
    have "type_of_data (type_heap s) \<circ> data_at (slist_heap s) = type_at s"
      by (rule ext) (simp add: type_at_def)
    with ta show ?thesis by simp
  qed
  ultimately show ?thesis using assms(2) by (simp add: foreach_data_classify)
qed

lemma bit_type_bit: "bit (type_bit t) b \<longleftrightarrow> b = unat (pt_type_val t) \<and> b < 32"
  by (auto simp: type_bit_def bit_exp_iff possible_bit_word)

lemma bit_classify_from:
  "bit (classify_from ts h m) b \<longleftrightarrow>
     bit m b \<or> (b < 32 \<and> (\<exists>t \<in> set ts. unat (pt_type_val t) = b \<and> pt_callback t h))"
  by (induction ts arbitrary: m) (auto simp: bit_or_iff bit_type_bit)

lemma types_wf_nth:
  assumes "types_wf s cs ts" and "b < length ts"
  shows "unat (pt_type_val (ts ! b)) = b"
proof -
  from assms(1) have "map (\<lambda>t. unat (pt_type_val t)) ts = [0..<length ts]"
    by (simp add: types_wf_def)
  then have "map (\<lambda>t. unat (pt_type_val t)) ts ! b = [0..<length ts] ! b" by simp
  with assms(2) show ?thesis by simp
qed

lemma types_wf_bit_index:
  assumes "types_wf s cs ts"
  shows "(\<exists>t \<in> set ts. unat (pt_type_val t) = b \<and> pt_callback t h)
     \<longleftrightarrow> (b < length ts \<and> pt_callback (ts ! b) h)"
proof
  assume "\<exists>t \<in> set ts. unat (pt_type_val t) = b \<and> pt_callback t h"
  then obtain i where "i < length ts" "unat (pt_type_val (ts ! i)) = b" "pt_callback (ts ! i) h"
    by (auto simp: in_set_conv_nth)
  with types_wf_nth[OF assms, of i] show "b < length ts \<and> pt_callback (ts ! b) h" by simp
next
  assume "b < length ts \<and> pt_callback (ts ! b) h"
  with types_wf_nth[OF assms, of b] nth_mem[of b ts]
  show "\<exists>t \<in> set ts. unat (pt_type_val t) = b \<and> pt_callback t h" by blast
qed

subsection \<open>One directory entry\<close>

lemma entry_module_file:
  assumes "module_file e nm"
  shows "plugins_scan_dir_entry e dirname mode nm s =
     (case check_if_plugin_exists nm s of None \<Rightarrow> None
      | Some True \<Rightarrow>
          Some (if mode = REPORT_LOAD_FAILURE
                then report_warning (''The plugin '' @ quoted nm @ '' was found in multiple directories.''
                       @ [CHR 0x0A]) s
                else s)
      | Some False \<Rightarrow>
     (case g_module_open e (plugin_filename e dirname nm) of
        None \<Rightarrow>
          Some (if mode = REPORT_LOAD_FAILURE
                then report_failure (''Couldn'' @ [CHR 0x27] @ ''t load module ''
                       @ plugin_filename e dirname nm @ '': ''
                       @ g_module_error e (plugin_filename e dirname nm)) s
                else s)
      | Some handle \<Rightarrow>
     (case g_module_symbol e handle ''version'' of
        None \<Rightarrow>
          Some (g_module_close handle
                  (report_failure (''The plugin '' @ nm @ '' has no version symbol'')
                     (s\<lparr>trace := trace s @ [Module_open handle]\<rparr>)))
      | Some gp \<Rightarrow>
     (case g_slist_foreach (plugin_types s) call_plugin_callback (Some (next_free s))
             (s\<lparr>trace := trace s @ [Module_open handle], next_free := Suc (next_free s),
                plugin_heap := (plugin_heap s)(next_free s \<mapsto>
                  \<lparr>p_handle = handle, p_name = nm, p_version = gp, p_types = 0, p_next = None\<rparr>)\<rparr>) of
        None \<Rightarrow> None
      | Some s4 \<Rightarrow>
     (case plugin_heap s4 (next_free s) of None \<Rightarrow> None
      | Some pl \<Rightarrow>
          if p_types pl = 0 then
            g_free_plugin (next_free s)
              (g_module_close handle
                 (if mode = REPORT_LOAD_FAILURE
                  then report_failure (''The plugin '' @ quoted nm @ '' has no registration routines'') s4
                  else s4))
          else add_plugin (next_free s) s4)))))"
proof -
  from assms have 1: "strrchr_dot nm = Some (G_MODULE_SUFFIX e)"
    and 2: "\<not> (WIN32 e \<and> take 14 nm = ''nordic_ble.dll'')"
    by (simp_all add: module_file_def)
  show ?thesis
    unfolding plugins_scan_dir_entry_def Let_def plugin_filename_def[symmetric] g_malloc_def
    by (simp add: 1 2 split: option.splits bool.splits)
qed

lemma entry_not_module:
  "\<not> module_file e nm \<Longrightarrow> plugins_scan_dir_entry e dirname mode nm s = Some s"
  by (auto simp: plugins_scan_dir_entry_def module_file_def split: option.splits)

lemma entry_duplicate:
  assumes "module_file e nm" and "check_if_plugin_exists nm s = Some True"
  shows "plugins_scan_dir_entry e dirname mode nm s =
     Some (if mode = REPORT_LOAD_FAILURE
           then report_warning (''The plugin '' @ quoted nm @ '' was found in multiple directories.''
                  @ [CHR 0x0A]) s
           else s)"
  using assms(2) by (simp add: entry_module_file[OF assms(1)])

lemma entry_open_fails:
  assumes "module_file e nm" and "check_if_plugin_exists nm s = Some False"
    and "g_module_open e (plugin_filename e dirname nm) = None"
  shows "plugins_scan_dir_entry e dirname mode nm s =
     Some (if mode = REPORT_LOAD_FAILURE
           then report_failure (''Couldn'' @ [CHR 0x27] @ ''t load module ''
                  @ plugin_filename e dirname nm @ '': ''
                  @ g_module_error e (plugin_filename e dirname nm)) s
           else s)"
  using assms(2,3) by (simp add: entry_module_file[OF assms(1)])

lemma entry_no_version:
  assumes "module_file e nm" and "check_if_plugin_exists nm s = Some False"
    and "g_module_open e (plugin_filename e dirname nm) = Some h"
    and "g_module_symbol e h ''version'' = None"
  shows "plugins_scan_dir_entry e dirname mode nm s =
     Some (s\<lparr>trace := trace s @ [Module_open h,
              Report_failure (''The plugin '' @ nm @ '' has no version symbol''),
              Module_close h]\<rparr>)"
  using assms(2,3,4)
  by (simp add: entry_module_file[OF assms(1)] report_failure_def g_module_close_def)

lemma fresh_candidate_classified:
  assumes wf: "types_wf s cs ts"
  shows "g_slist_foreach (plugin_types s) call_plugin_callback (Some (next_free s))
          (s\<lparr>trace := trace s @ [Module_open h], next_free := Suc (next_free s),
             plugin_heap := (plugin_heap s)(next_free s \<mapsto>
               \<lparr>p_handle = h, p_name = nm, p_version = v, p_types = 0, p_next = None\<rparr>)\<rparr>)
     = Some (s\<lparr>trace := trace s @ [Module_open h], next_free := Suc (next_free s),
             plugin_heap := (plugin_heap s)(next_free s \<mapsto>
               \<lparr>p_handle = h, p_name = nm, p_version = v, p_types = classify ts h, p_next = None\<rparr>)\<rparr>)"
proof -
  let ?n = "next_free s"
  let ?Q = "\<lparr>p_handle = h, p_name = nm, p_version = v, p_types = 0, p_next = None\<rparr>"
  let ?t = "s\<lparr>trace := trace s @ [Module_open h], next_free := Suc ?n,
                plugin_heap := (plugin_heap s)(?n \<mapsto> ?Q)\<rparr>"
  let ?P = "\<lparr>p_handle = h, p_name = nm, p_version = v, p_types = classify ts h, p_next = None\<rparr>"
  let ?u = "s\<lparr>trace := trace s @ [Module_open h], next_free := Suc ?n,
                plugin_heap := (plugin_heap s)(?n \<mapsto> ?P)\<rparr>"
  have "types_wf ?t cs ts" using wf by (rule types_wf_frame[rotated]) (simp add: same_types_def)
  moreover have "plugin_heap ?t ?n = Some ?Q" by simp
  ultimately have "g_slist_foreach (plugin_types ?t) call_plugin_callback (Some ?n) ?t
      = Some (?t\<lparr>plugin_heap := (plugin_heap ?t)(?n \<mapsto>
           ?Q\<lparr>p_types := classify_from ts (p_handle ?Q) (p_types ?Q)\<rparr>)\<rparr>)"
    by (rule g_slist_foreach_classify)
  moreover have "?Q\<lparr>p_types := classify_from ts (p_handle ?Q) (p_types ?Q)\<rparr> = ?P"
    unfolding classify_def by simp
  moreover have "?t\<lparr>plugin_heap := (plugin_heap ?t)(?n \<mapsto> ?P)\<rparr> = ?u"
    by simp
  moreover have "plugin_types ?t = plugin_types s" by simp
  ultimately show ?thesis by (simp only:)
qed

lemma entry_classified:
  assumes mf: "module_file e nm" and ch: "check_if_plugin_exists nm s = Some False"
    and op: "g_module_open e (plugin_filename e dirname nm) = Some h"
    and sy: "g_module_symbol e h ''version'' = Some v"
    and wf: "types_wf s cs ts" and al: "alloc_ok s"
  shows "plugins_scan_dir_entry e dirname mode nm s =
     (if classify ts h = 0 then
        Some (s\<lparr>next_free := Suc (next_free s),
                trace := trace s @ [Module_open h]
                  @ (if mode = REPORT_LOAD_FAILURE
                     then [Report_failure (''The plugin '' @ quoted nm @ '' has no registration routines'')]
                     else [])
                  @ [Module_close h]\<rparr>)
      else
        add_plugin (next_free s)
          (s\<lparr>trace := trace s @ [Module_open h], next_free := Suc (next_free s),
             plugin_heap := (plugin_heap s)(next_free s \<mapsto>
               \<lparr>p_handle = h, p_name = nm, p_version = v, p_types = classify ts h, p_next = None\<rparr>)\<rparr>))"
proof -
  note fe = fresh_candidate_classified[OF wf, of h nm v]
  have fresh: "plugin_heap s (next_free s) = None" using al by (simp add: alloc_ok_def)
  have unm: "(plugin_heap s)(next_free s := None) = plugin_heap s"
    using fresh by (rule_tac ext) simp
  show ?thesis
  proof (cases "classify ts h = 0")
    case True
    show ?thesis
      using True ch op sy fe unm
      by (simp add: entry_module_file[OF mf] g_free_plugin_def g_module_close_def report_failure_def)
  next
    case False
    show ?thesis
      using False ch op sy fe
      by (simp add: entry_module_file[OF mf])
  qed
qed

lemma add_plugin_llist:
  assumes ll: "llist (plugin_links (plugin_heap t)) (plugin_list t) as"
    and new: "plugin_heap t n = Some P" "p_next P = None" and fresh: "n \<notin> set as"
  shows "\<exists>h' l'. add_plugin n t = Some (t\<lparr>plugin_list := l', plugin_heap := h'\<rparr>)
     \<and> llist (plugin_links h') l' (as @ [n])
     \<and> (\<forall>a. map_option unlinked (h' a) = map_option unlinked (plugin_heap t a))
     \<and> (plugin_list t \<noteq> None \<longrightarrow> l' = plugin_list t) \<and> l' \<noteq> None"
proof (cases "as = []")
  case True
  with ll have none: "plugin_list t = None" by simp
  then have "add_plugin n t = Some (t\<lparr>plugin_list := Some n, plugin_heap := plugin_heap t\<rparr>)"
    by (simp add: add_plugin_def)
  moreover have "llist (plugin_links (plugin_heap t)) (Some n) (as @ [n])"
    using True new by (simp add: plugin_links_def)
  ultimately show ?thesis using none
    by (intro exI[of _ "plugin_heap t"] exI[of _ "Some n"]) simp
next
  case False
  with ll obtain a where a: "plugin_list t = Some a" by (cases as) auto
  have last: "add_plugin_last (plugin_heap t) a = Some (last as)"
    using ll a by (intro add_plugin_last_llist) simp
  have m: "last as \<in> set as" using False by simp
  from llist_allocated[OF ll m] obtain pl where pl: "plugin_heap t (last as) = Some pl"
    by (auto simp: plugin_links_def)
  have ne: "last as \<noteq> n" using m fresh by auto
  let ?h' = "(plugin_heap t)(last as \<mapsto> pl\<lparr>p_next := Some n\<rparr>)"
  have run: "add_plugin n t = Some (t\<lparr>plugin_list := plugin_list t, plugin_heap := ?h'\<rparr>)"
    using a last pl by (simp add: add_plugin_def)
  have "llist (plugin_links ?h') (plugin_list t) (as @ [n])"
  proof (rule llist_snoc[OF ll False])
    show "plugin_links ?h' (last as) = Some (Some n)" by (simp add: plugin_links_def)
    show "plugin_links ?h' n = Some None" using ne new by (simp add: plugin_links_def)
    fix b assume "b \<in> set (butlast as)"
    then have "b \<noteq> last as"
      using llist_distinct[OF ll] False
      by (metis append_butlast_last_id distinct_append disjoint_iff list.set_intros(1))
    then show "plugin_links ?h' b = plugin_links (plugin_heap t) b" by (simp add: plugin_links_def)
  qed
  moreover have "\<forall>b. map_option unlinked (?h' b) = map_option unlinked (plugin_heap t b)"
    using pl by (simp add: unlinked_def)
  ultimately show ?thesis using run a
    by (intro exI[of _ "?h'"] exI[of _ "plugin_list t"]) simp
qed

subsection \<open>The loop body refines its registry-level view\<close>

lemma map_Some_transfer:
  assumes "map f as = map Some ps" and "\<And>a p. f a = Some p \<Longrightarrow> g a = k p"
  shows "map g as = map k ps"
  using assms(1)
proof (induction as arbitrary: ps)
  case Nil
  then show ?case by simp
next
  case (Cons a as)
  then show ?case by (cases ps) (auto simp: assms(2))
qed

lemma registry_names:
  assumes "registry_wf e s as ps"
  shows "map (name_at (plugin_heap s)) as = map p_name ps"
proof (rule map_Some_transfer)
  show "map (\<lambda>a. map_option unlinked (plugin_heap s a)) as = map Some ps"
    using assms by (simp add: registry_wf_def)
  fix a p assume "map_option unlinked (plugin_heap s a) = Some p"
  then show "name_at (plugin_heap s) a = p_name p"
    by (auto simp: name_at_def unlinked_def)
qed

lemma registry_check:
  assumes "registry_wf e s as ps"
  shows "check_if_plugin_exists nm s = Some (nm \<in> set (map p_name ps))"
proof -
  from assms have "llist (plugin_links (plugin_heap s)) (plugin_list s) as"
    by (simp add: registry_wf_def)
  then show ?thesis
    unfolding check_if_plugin_exists_def
    by (simp add: check_if_plugin_exists_from_llist registry_names[OF assms])
qed

lemma registry_length: "registry_wf e s as ps \<Longrightarrow> length as = length ps"
  unfolding registry_wf_def by (metis length_map)

lemma registry_empty: "registry_wf e s as ps \<Longrightarrow> plugin_list s = None \<longleftrightarrow> ps = []"
  using registry_length[of e s as ps]
  by (cases as) (auto simp: registry_wf_def)

lemma open_count_append: "open_count (tr @ evs) h = open_count tr h + open_count evs h"
  by (simp add: open_count_def)

lemma open_count_simps [simp]:
  "open_count [] h = 0"
  "open_count (Module_open g # tr) h = (if g = h then 1 else 0) + open_count tr h"
  "open_count (Module_close g # tr) h = (if g = h then - 1 else 0) + open_count tr h"
  "open_count (Report_failure m # tr) h = open_count tr h"
  "open_count (Report_warning m # tr) h = open_count tr h"
  "open_count (Scan_dir site d # tr) h = open_count tr h"
  by (simp_all add: open_count_def)

lemma state_wf_quiet:
  assumes "state_wf e s as ps cs ts" and "next_free s \<le> n"
    and "\<And>h. open_count evs h = 0"
  shows "state_wf e (s\<lparr>next_free := n, trace := trace s @ evs\<rparr>) as ps cs ts"
proof -
  let ?tr = "trace s @ evs"
  have "same_types s (s\<lparr>next_free := n, trace := ?tr\<rparr>)" by (simp add: same_types_def)
  then have "types_wf (s\<lparr>next_free := n, trace := ?tr\<rparr>) cs ts"
    using assms(1) by (auto simp: state_wf_def intro: types_wf_frame)
  moreover have "registry_wf e (s\<lparr>next_free := n, trace := ?tr\<rparr>) as ps"
    using assms(1) by (simp add: state_wf_def registry_wf_def)
  moreover have "alloc_ok (s\<lparr>next_free := n, trace := ?tr\<rparr>)"
    using assms(1,2) by (simp add: state_wf_def alloc_ok_def)
  moreover have "handles_ok (s\<lparr>next_free := n, trace := ?tr\<rparr>) ps"
    using assms(1,3) by (simp add: state_wf_def handles_ok_def open_count_append)
  ultimately show ?thesis by (simp add: state_wf_def)
qed

lemma state_wf_trace:
  assumes "state_wf e s as ps cs ts" and "\<And>h. open_count evs h = 0"
  shows "state_wf e (s\<lparr>trace := trace s @ evs\<rparr>) as ps cs ts"
  using state_wf_quiet[OF assms(1) order_refl assms(2)] by simp

lemma scan_calls_append:
  "scan_calls (s\<lparr>trace := trace s @ evs\<rparr>)
     = scan_calls s @ concat (map (\<lambda>ev. case ev of Scan_dir site d \<Rightarrow> [(site, d)] | _ \<Rightarrow> []) evs)"
  by (simp add: scan_calls_def)

lemma entry_add:
  assumes wf: "state_wf e s as ps cs ts"
    and mf: "module_file e nm" and nd: "nm \<notin> set (map p_name ps)"
    and nz: "classify ts h \<noteq> 0"
  shows "\<exists>s'. add_plugin (next_free s)
          (s\<lparr>trace := trace s @ [Module_open h], next_free := Suc (next_free s),
             plugin_heap := (plugin_heap s)(next_free s \<mapsto>
               \<lparr>p_handle = h, p_name = nm, p_version = v, p_types = classify ts h, p_next = None\<rparr>)\<rparr>)
          = Some s'
      \<and> state_wf e s' (as @ [next_free s])
           (ps @ [\<lparr>p_handle = h, p_name = nm, p_version = v, p_types = classify ts h, p_next = None\<rparr>])
           cs ts
      \<and> trace s' = trace s @ [Module_open h]"
proof -
  let ?n = "next_free s"
  let ?P = "\<lparr>p_handle = h, p_name = nm, p_version = v, p_types = classify ts h, p_next = None\<rparr>"
  let ?t = "s\<lparr>trace := trace s @ [Module_open h], next_free := Suc ?n,
               plugin_heap := (plugin_heap s)(?n \<mapsto> ?P)\<rparr>"
  from wf have rw: "registry_wf e s as ps" and tw: "types_wf s cs ts" and al: "alloc_ok s"
    and ho: "handles_ok s ps"
    by (simp_all add: state_wf_def)
  from rw have ll: "llist (plugin_links (plugin_heap s)) (plugin_list s) as"
    and cont: "map (\<lambda>a. map_option unlinked (plugin_heap s a)) as = map Some ps"
    and dist: "distinct (map p_name ps)"
    and good: "\<forall>p \<in> set ps. module_file e (p_name p) \<and> p_types p \<noteq> 0"
    by (simp_all add: registry_wf_def)
  have below: "a < ?n" if "a \<in> set as" for a
    using llist_below[OF ll _ that, of ?n] al by (auto simp: alloc_ok_def plugin_links_def)
  have fresh: "?n \<notin> set as" using below by fastforce
  have "llist (plugin_links (plugin_heap ?t)) (plugin_list ?t) as"
    using ll fresh by (subst llist_cong[where nx'="plugin_links (plugin_heap s)"])
      (auto simp: plugin_links_def)
  moreover have "plugin_heap ?t ?n = Some ?P" "p_next ?P = None" by simp_all
  ultimately obtain h' l' where run: "add_plugin ?n ?t = Some (?t\<lparr>plugin_list := l', plugin_heap := h'\<rparr>)"
    and ll': "llist (plugin_links h') l' (as @ [?n])"
    and same: "\<forall>a. map_option unlinked (h' a) = map_option unlinked (plugin_heap ?t a)"
    using add_plugin_llist[of ?t as ?n ?P, OF _ _ _ fresh] by blast
  let ?s' = "?t\<lparr>plugin_list := l', plugin_heap := h'\<rparr>"
  have old: "map (\<lambda>a. map_option unlinked (h' a)) as = map Some ps"
  proof -
    have "map (\<lambda>a. map_option unlinked (h' a)) as = map (\<lambda>a. map_option unlinked (plugin_heap s a)) as"
      using same fresh by (intro map_cong) auto
    with cont show ?thesis by simp
  qed
  have new: "map_option unlinked (h' ?n) = Some ?P"
    using same by (simp add: unlinked_def)
  have rw': "registry_wf e ?s' (as @ [?n]) (ps @ [?P])"
    using ll' old new dist good nd mf nz by (simp add: registry_wf_def)
  have "same_types s ?s'" by (simp add: same_types_def)
  then have tw': "types_wf ?s' cs ts" using tw by (rule types_wf_frame)
  have al': "alloc_ok ?s'"
    unfolding alloc_ok_def
  proof (intro allI impI)
    fix a assume a: "next_free ?s' \<le> a"
    then have "plugin_heap ?t a = None" using al by (simp add: alloc_ok_def)
    with same have "map_option unlinked (h' a) = None" by simp
    then have "h' a = None" by simp
    moreover have "type_heap ?s' a = None \<and> slist_heap ?s' a = None"
      using a al by (simp add: alloc_ok_def)
    ultimately show "plugin_heap ?s' a = None \<and> type_heap ?s' a = None \<and> slist_heap ?s' a = None"
      by simp
  qed
  have ho': "handles_ok ?s' (ps @ [?P])"
    using ho by (simp add: handles_ok_def open_count_append)
  have "state_wf e ?s' (as @ [?n]) (ps @ [?P]) cs ts"
    using rw' tw' al' ho' by (simp add: state_wf_def)
  moreover have "trace ?s' = trace s @ [Module_open h]" by simp
  ultimately show ?thesis using run by blast
qed

lemma entry_refines:
  assumes wf: "state_wf e s as ps cs ts"
  shows "\<exists>s' as'. plugins_scan_dir_entry e dirname mode nm s = Some s'
     \<and> state_wf e s' as' (scan_entry_abs e ts dirname nm ps) cs ts
     \<and> scan_calls s' = scan_calls s"
proof -
  from wf have rw: "registry_wf e s as ps" and tw: "types_wf s cs ts" and al: "alloc_ok s"
    by (simp_all add: state_wf_def)
  note ch = registry_check[OF rw, of nm]
  show ?thesis
  proof (cases "module_file e nm")
    case False
    then show ?thesis using wf
      by (auto simp: entry_not_module scan_entry_abs_def candidate_def)
  next
    case mf: True
    show ?thesis
    proof (cases "nm \<in> set (map p_name ps)")
      case True
      then have abs: "scan_entry_abs e ts dirname nm ps = ps"
        by (simp add: scan_entry_abs_def candidate_def)
      from True ch have "check_if_plugin_exists nm s = Some True" by simp
      note run = entry_duplicate[OF mf this, of dirname mode]
      have "state_wf e (s\<lparr>trace := trace s @ [Report_warning (''The plugin '' @ quoted nm
            @ '' was found in multiple directories.'' @ [CHR 0x0A])]\<rparr>) as ps cs ts"
        by (rule state_wf_trace[OF wf]) simp
      then show ?thesis unfolding abs run using wf
        by (auto simp: report_warning_def scan_calls_append)
    next
      case nd: False
      with ch have chF: "check_if_plugin_exists nm s = Some False" by simp
      show ?thesis
      proof (cases "g_module_open e (plugin_filename e dirname nm)")
        case None
        then have abs: "scan_entry_abs e ts dirname nm ps = ps"
          by (simp add: scan_entry_abs_def candidate_def)
        note run = entry_open_fails[OF mf chF None, of mode]
        have "state_wf e (s\<lparr>trace := trace s @ [Report_failure (''Couldn'' @ [CHR 0x27]
              @ ''t load module '' @ plugin_filename e dirname nm @ '': ''
              @ g_module_error e (plugin_filename e dirname nm))]\<rparr>) as ps cs ts"
          by (rule state_wf_trace[OF wf]) simp
        then show ?thesis unfolding abs run using wf
          by (auto simp: report_failure_def scan_calls_append)
      next
        case (Some h)
        show ?thesis
        proof (cases "g_module_symbol e h ''version''")
          case None
          with Some have abs: "scan_entry_abs e ts dirname nm ps = ps"
            by (simp add: scan_entry_abs_def candidate_def)
          note run = entry_no_version[OF mf chF Some None, of mode]
          have "state_wf e (s\<lparr>trace := trace s @ [Module_open h,
                Report_failure (''The plugin '' @ nm @ '' has no version symbol''),
                Module_close h]\<rparr>) as ps cs ts"
            by (rule state_wf_trace[OF wf]) simp
          then show ?thesis unfolding abs run
            by (auto simp: scan_calls_append)
        next
          case (Some v)
          note run = entry_classified[OF mf chF \<open>g_module_open e (plugin_filename e dirname nm) = Some h\<close>
              Some tw al, of mode]
          show ?thesis
          proof (cases "classify ts h = 0")
            case True
            with Some \<open>g_module_open e (plugin_filename e dirname nm) = Some h\<close>
            have abs: "scan_entry_abs e ts dirname nm ps = ps"
              by (simp add: scan_entry_abs_def candidate_def)
            have "state_wf e (s\<lparr>next_free := Suc (next_free s),
                trace := trace s @ [Module_open h]
                  @ (if mode = REPORT_LOAD_FAILURE
                     then [Report_failure (''The plugin '' @ quoted nm @ '' has no registration routines'')]
                     else [])
                  @ [Module_close h]\<rparr>) as ps cs ts"
              by (rule state_wf_quiet[OF wf]) simp_all
            then show ?thesis unfolding abs run using True
              by (auto simp: scan_calls_def)
          next
            case False
            with Some \<open>g_module_open e (plugin_filename e dirname nm) = Some h\<close> mf nd
            have abs: "scan_entry_abs e ts dirname nm ps = ps @
                [\<lparr>p_handle = h, p_name = nm, p_version = v, p_types = classify ts h, p_next = None\<rparr>]"
              by (simp add: scan_entry_abs_def candidate_def)
            from entry_add[OF wf mf nd False, of v] obtain s' where
              "add_plugin (next_free s)
                (s\<lparr>trace := trace s @ [Module_open h], next_free := Suc (next_free s),
                   plugin_heap := (plugin_heap s)(next_free s \<mapsto>
                     \<lparr>p_handle = h, p_name = nm, p_version = v, p_types = classify ts h, p_next = None\<rparr>)\<rparr>)
                = Some s'"
              and "state_wf e s' (as @ [next_free s])
                 (ps @ [\<lparr>p_handle = h, p_name = nm, p_version = v, p_types = classify ts h, p_next = None\<rparr>])
                 cs ts"
              and "trace s' = trace s @ [Module_open h]"
              by blast
            then show ?thesis unfolding abs run using False
              by (auto simp: scan_calls_def)
          qed
        qed
      qed
    qed
  qed
qed

subsection \<open>Directory scans and discovery\<close>

lemma loop_refines:
  assumes "state_wf e s as ps cs ts"
  shows "\<exists>s' as'. plugins_scan_dir_loop e dirname mode files s = Some s'
     \<and> state_wf e s' as' (fold (scan_entry_abs e ts dirname) files ps) cs ts
     \<and> scan_calls s' = scan_calls s"
  using assms
proof (induction files arbitrary: s as ps)
  case Nil
  then show ?case by auto
next
  case (Cons nm files)
  from entry_refines[OF Cons.prems, of dirname mode nm] obtain s1 as1 where
    1: "plugins_scan_dir_entry e dirname mode nm s = Some s1"
    and 2: "state_wf e s1 as1 (scan_entry_abs e ts dirname nm ps) cs ts"
    and 3: "scan_calls s1 = scan_calls s" by blast
  from Cons.IH[OF 2] obtain s' as' where
    "plugins_scan_dir_loop e dirname mode files s1 = Some s'"
    "state_wf e s' as' (fold (scan_entry_abs e ts dirname) files (scan_entry_abs e ts dirname nm ps)) cs ts"
    "scan_calls s' = scan_calls s1" by blast
  with 1 3 show ?case by auto
qed

lemma dir_refines:
  assumes "state_wf e s as ps cs ts"
  shows "\<exists>s' as'. plugins_scan_dir e dirname mode s = Some s'
     \<and> state_wf e s' as' (plugins_scan_dir_abs e ts dirname ps) cs ts
     \<and> scan_calls s' = scan_calls s"
  using assms loop_refines[OF assms]
  by (auto simp: plugins_scan_dir_def plugins_scan_dir_abs_def split: option.splits)

lemma scan_from_refines:
  assumes "state_wf e s as ps cs ts"
  shows "\<exists>s' as'. scan_from site e dirname mode s = Some s'
     \<and> state_wf e s' as' (plugins_scan_dir_abs e ts dirname ps) cs ts
     \<and> scan_calls s' = scan_calls s @ [(site, dirname)]"
proof -
  let ?s0 = "s\<lparr>trace := trace s @ [Scan_dir site dirname]\<rparr>"
  have "state_wf e ?s0 as ps cs ts" using assms by (rule state_wf_trace) simp
  from dir_refines[OF this, of dirname mode] obtain s' as' where
    "plugins_scan_dir e dirname mode ?s0 = Some s'"
    "state_wf e s' as' (plugins_scan_dir_abs e ts dirname ps) cs ts"
    "scan_calls s' = scan_calls ?s0" by blast
  then show ?thesis by (auto simp: scan_from_def scan_calls_append)
qed

lemma subdirs_refines:
  assumes "state_wf e s as ps cs ts"
  shows "\<exists>s' as'. scan_plugins_subdirs e plugin_dir mode files s = Some s'
     \<and> state_wf e s' as' (scan_dirs_abs e ts (subdir_calls e plugin_dir files) ps) cs ts
     \<and> scan_calls s' = scan_calls s @ subdir_calls e plugin_dir files"
  using assms
proof (induction files arbitrary: s as ps)
  case Nil
  then show ?case by (auto simp: subdir_calls_def scan_dirs_abs_def)
next
  case (Cons nm files)
  show ?case
  proof (cases "nm = ''.'' \<or> nm = ''..''")
    case True
    then have "subdir_calls e plugin_dir (nm # files) = subdir_calls e plugin_dir files"
      by (auto simp: subdir_calls_def)
    moreover have "scan_plugins_subdirs e plugin_dir mode (nm # files) s
        = scan_plugins_subdirs e plugin_dir mode files s"
      using True by auto
    ultimately show ?thesis using Cons.IH[OF Cons.prems] by simp
  next
    case False
    then have calls: "subdir_calls e plugin_dir (nm # files)
        = (Build_subdir, subdir_path e plugin_dir nm) # subdir_calls e plugin_dir files"
      by (auto simp: subdir_calls_def)
    from scan_from_refines[OF Cons.prems, of Build_subdir "subdir_path e plugin_dir nm" mode]
    obtain s1 as1 where
      1: "scan_from Build_subdir e (subdir_path e plugin_dir nm) mode s = Some s1"
      and 2: "state_wf e s1 as1 (plugins_scan_dir_abs e ts (subdir_path e plugin_dir nm) ps) cs ts"
      and 3: "scan_calls s1 = scan_calls s @ [(Build_subdir, subdir_path e plugin_dir nm)]"
      by blast
    from Cons.IH[OF 2] obtain s' as' where 4:
      "scan_plugins_subdirs e plugin_dir mode files s1 = Some s'"
      "state_wf e s' as' (scan_dirs_abs e ts (subdir_calls e plugin_dir files)
          (plugins_scan_dir_abs e ts (subdir_path e plugin_dir nm) ps)) cs ts"
      "scan_calls s' = scan_calls s1 @ subdir_calls e plugin_dir files" by blast
    have run: "scan_plugins_subdirs e plugin_dir mode (nm # files) s = Some s'"
      using False 1 4(1) by (simp add: subdir_path_def Let_def)
    show ?thesis unfolding calls run using 3 4(2,3)
      by (auto simp: scan_dirs_abs_def)
  qed
qed

lemma scan_dirs_abs_append:
  "scan_dirs_abs e ts (c1 @ c2) ps = scan_dirs_abs e ts c2 (scan_dirs_abs e ts c1 ps)"
  by (simp add: scan_dirs_abs_def)

lemma scan_plugins_refines:
  assumes wf: "state_wf e s as ps cs ts"
  shows "\<exists>s' as'. scan_plugins e mode s = Some s'
     \<and> state_wf e s' as' (scan_plugins_abs e ts ps) cs ts
     \<and> scan_calls s' = scan_calls s @ (if plugin_list s = None then scan_plugins_dirs e else [])"
proof (cases "plugin_list s = None")
  case False
  moreover from wf have "registry_wf e s as ps" by (simp add: state_wf_def)
  ultimately have "ps \<noteq> []" by (simp add: registry_empty)
  with False wf show ?thesis by (auto simp: scan_plugins_def scan_plugins_abs_def)
next
  case True
  moreover from wf have "registry_wf e s as ps" by (simp add: state_wf_def)
  ultimately have emp: "ps = []" by (simp add: registry_empty)
  show ?thesis
  proof (cases "get_plugins_dir e")
    case None
    with True emp wf show ?thesis
      by (auto simp: scan_plugins_def scan_plugins_abs_def scan_plugins_dirs_def scan_dirs_abs_def)
  next
    case (Some plugin_dir)
    define first where "first =
      (if running_in_build_directory e then
         (case ws_dir_open e plugin_dir of None \<Rightarrow> Some s
          | Some files \<Rightarrow>
              Option.bind (scan_from Global_dir e plugin_dir mode s)
                (scan_plugins_subdirs e plugin_dir mode files))
       else scan_from System_dir e (get_plugins_dir_with_version e) mode s)"
    define c1 where "c1 =
      (if running_in_build_directory e then
         (case ws_dir_open e plugin_dir of None \<Rightarrow> []
          | Some files \<Rightarrow> (Global_dir, plugin_dir) # subdir_calls e plugin_dir files)
       else [(System_dir, get_plugins_dir_with_version e)])"
    define c2 where "c2 =
      (if \<not> started_with_special_privs e
       then [(Personal_dir, get_plugins_pers_dir_with_version e)] else [])"
    have dirs: "scan_plugins_dirs e = c1 @ c2"
      using Some by (simp add: scan_plugins_dirs_def c1_def c2_def)
    have "\<exists>s1 as1. first = Some s1 \<and> state_wf e s1 as1 (scan_dirs_abs e ts c1 ps) cs ts
        \<and> scan_calls s1 = scan_calls s @ c1"
    proof (cases "running_in_build_directory e")
      case False
      with scan_from_refines[OF wf, of System_dir "get_plugins_dir_with_version e" mode]
      show ?thesis by (auto simp: first_def c1_def scan_dirs_abs_def)
    next
      case build: True
      show ?thesis
      proof (cases "ws_dir_open e plugin_dir")
        case None
        with build wf show ?thesis by (auto simp: first_def c1_def scan_dirs_abs_def)
      next
        case (Some files)
        from scan_from_refines[OF wf, of Global_dir plugin_dir mode] obtain s0 as0 where
          a: "scan_from Global_dir e plugin_dir mode s = Some s0"
          and b: "state_wf e s0 as0 (plugins_scan_dir_abs e ts plugin_dir ps) cs ts"
          and c: "scan_calls s0 = scan_calls s @ [(Global_dir, plugin_dir)]" by blast
        from subdirs_refines[OF b, of plugin_dir mode files] obtain s1 as1 where
          d: "scan_plugins_subdirs e plugin_dir mode files s0 = Some s1"
          and f: "state_wf e s1 as1 (scan_dirs_abs e ts (subdir_calls e plugin_dir files)
                (plugins_scan_dir_abs e ts plugin_dir ps)) cs ts"
          and g: "scan_calls s1 = scan_calls s0 @ subdir_calls e plugin_dir files" by blast
        have "first = Some s1" using build Some a d by (simp add: first_def)
        moreover have "scan_dirs_abs e ts c1 ps = scan_dirs_abs e ts (subdir_calls e plugin_dir files)
                (plugins_scan_dir_abs e ts plugin_dir ps)"
          using build Some by (simp add: c1_def scan_dirs_abs_def)
        moreover have "scan_calls s1 = scan_calls s @ c1"
          using build Some c g by (simp add: c1_def)
        ultimately show ?thesis using f by auto
      qed
    qed
    then obtain s1 as1 where 1: "first = Some s1"
      and 2: "state_wf e s1 as1 (scan_dirs_abs e ts c1 ps) cs ts"
      and 3: "scan_calls s1 = scan_calls s @ c1" by blast
    have run: "scan_plugins e mode s =
        (if \<not> started_with_special_privs e
         then scan_from Personal_dir e (get_plugins_pers_dir_with_version e) mode s1
         else Some s1)"
      using True Some 1 by (simp add: scan_plugins_def first_def)
    have abs: "scan_plugins_abs e ts ps = scan_dirs_abs e ts c2 (scan_dirs_abs e ts c1 ps)"
      using emp dirs by (simp add: scan_plugins_abs_def scan_dirs_abs_append)
    show ?thesis
    proof (cases "started_with_special_privs e")
      case True
      then have "c2 = []" by (simp add: c2_def)
      with True 2 3 \<open>plugin_list s = None\<close> show ?thesis
        unfolding run abs dirs by (auto simp: scan_dirs_abs_def)
    next
      case False
      then have c2: "c2 = [(Personal_dir, get_plugins_pers_dir_with_version e)]"
        by (simp add: c2_def)
      from scan_from_refines[OF 2, of Personal_dir "get_plugins_pers_dir_with_version e" mode]
      obtain s' as' where
        "scan_from Personal_dir e (get_plugins_pers_dir_with_version e) mode s1 = Some s'"
        "state_wf e s' as' (plugins_scan_dir_abs e ts (get_plugins_pers_dir_with_version e)
            (scan_dirs_abs e ts c1 ps)) cs ts"
        "scan_calls s' = scan_calls s1 @ [(Personal_dir, get_plugins_pers_dir_with_version e)]"
        by blast
      with False 3 \<open>plugin_list s = None\<close> show ?thesis
        unfolding run abs dirs c2 by (auto simp: scan_dirs_abs_def)
    qed
  qed
qed

lemma scan_plugins_abs_idem:
  "scan_plugins_abs e ts (scan_plugins_abs e ts ps) = scan_plugins_abs e ts ps"
  by (simp add: scan_plugins_abs_def)

lemma scan_plugins_noop: "plugin_list s \<noteq> None \<Longrightarrow> scan_plugins e mode s = Some s"
  by (auto simp: scan_plugins_def)

subsection \<open>Cleanup\<close>

lemma type_at_comp: "type_at s = type_of_data (type_heap s) \<circ> data_at (slist_heap s)"
  by (rule ext) (simp add: type_at_def)

lemma free_plugin_type_slist:
  "free_plugin_type d u t = Some t' \<Longrightarrow> slist_heap t' = slist_heap t"
  by (auto simp: free_plugin_type_def g_free_plugin_type_def split: option.splits)

lemma foreach_data_free:
  assumes "map (type_of_data (type_heap s)) ds = map Some ts" and "distinct ds"
  shows "foreach_data ds free_plugin_type u s
     = Some (s\<lparr>type_heap := type_heap s |` (- {a. Some a \<in> set ds})\<rparr>)"
  using assms
proof (induction ds arbitrary: ts s)
  case Nil
  then show ?case by (simp add: restrict_map_def)
next
  case (Cons d ds)
  from Cons.prems(1) obtain t ts' a where ts: "ts = t # ts'" "d = Some a" "type_heap s a = Some t"
    and rest: "map (type_of_data (type_heap s)) ds = map Some ts'"
    by (cases ts; cases d) auto
  let ?s1 = "s\<lparr>type_heap := (type_heap s)(a := None)\<rparr>"
  have step: "free_plugin_type d u s = Some ?s1"
    using ts by (simp add: free_plugin_type_def g_free_plugin_type_def)
  have "map (type_of_data (type_heap ?s1)) ds = map (type_of_data (type_heap s)) ds"
  proof (rule map_cong[OF refl])
    fix x assume "x \<in> set ds"
    with Cons.prems(2) ts have "x \<noteq> Some a" by auto
    then show "type_of_data (type_heap ?s1) x = type_of_data (type_heap s) x"
      by (cases x) auto
  qed
  with rest have "map (type_of_data (type_heap ?s1)) ds = map Some ts'" by simp
  moreover have "distinct ds" using Cons.prems(2) by simp
  ultimately have "foreach_data ds free_plugin_type u ?s1
      = Some (?s1\<lparr>type_heap := type_heap ?s1 |` (- {a. Some a \<in> set ds})\<rparr>)"
    by (rule Cons.IH)
  moreover have "(type_heap s)(a := None) |` (- {a. Some a \<in> set ds})
      = type_heap s |` (- {b. Some b \<in> set (d # ds)})"
    using ts by (intro ext) (simp add: restrict_map_def)
  ultimately have "foreach_data ds free_plugin_type u ?s1
      = Some (s\<lparr>type_heap := type_heap s |` (- {b. Some b \<in> set (d # ds)})\<rparr>)"
    by simp
  with step show ?case by simp
qed

lemma types_wf_distinct_data:
  assumes "types_wf s cs ts"
  shows "distinct (map (data_at (slist_heap s)) cs)"
proof -
  from assms have ta: "map (type_at s) cs = map Some ts"
    and tv: "map (\<lambda>t. unat (pt_type_val t)) ts = [0..<length ts]"
    by (simp_all add: types_wf_def)
  have "distinct (map (\<lambda>t. unat (pt_type_val t)) ts)" unfolding tv by simp
  then have "distinct ts" by (simp add: distinct_map)
  then have "distinct (map Some ts)" by (simp add: distinct_map)
  with ta have "distinct (map (type_at s) cs)" by simp
  moreover have "map (type_at s) cs
      = map (type_of_data (type_heap s)) (map (data_at (slist_heap s)) cs)"
    by (simp add: type_at_comp)
  ultimately show ?thesis by (simp only: distinct_map)
qed

lemma plugins_cleanup_effect:
  assumes ll: "llist (plugin_links (plugin_heap s)) (plugin_list s) as"
    and tw: "types_wf s cs ts"
  shows "plugins_cleanup s =
     Some (s\<lparr>plugin_heap := plugin_heap s |` (- set as),
             type_heap := type_heap s |` (- data_addrs s cs),
             slist_heap := slist_heap s |` (- set cs)\<rparr>)"
proof -
  let ?s1 = "s\<lparr>plugin_heap := plugin_heap s |` (- set as)\<rparr>"
  let ?s2 = "?s1\<lparr>type_heap := type_heap s |` (- data_addrs s cs)\<rparr>"
  have 1: "plugins_cleanup_loop (plugin_list s) s = Some ?s1"
    using ll by (rule plugins_cleanup_loop_llist)
  have "same_types s ?s1" by (simp add: same_types_def)
  then have tw1: "types_wf ?s1 cs ts" using tw by (rule types_wf_frame)
  then have ll1: "llist (slist_links (slist_heap ?s1)) (plugin_types ?s1) cs"
    and ta1: "map (type_at ?s1) cs = map Some ts"
    by (simp_all add: types_wf_def)
  have "g_slist_foreach (plugin_types ?s1) free_plugin_type None ?s1
      = foreach_data (map (data_at (slist_heap ?s1)) cs) free_plugin_type None ?s1"
    using ll1 by (rule g_slist_foreach_llist) (rule free_plugin_type_slist)
  also have "\<dots> = Some (?s1\<lparr>type_heap := type_heap ?s1
        |` (- {a. Some a \<in> set (map (data_at (slist_heap ?s1)) cs)})\<rparr>)"
  proof (rule foreach_data_free)
    show "map (type_of_data (type_heap ?s1)) (map (data_at (slist_heap ?s1)) cs) = map Some ts"
      using ta1 by (simp add: type_at_comp)
    show "distinct (map (data_at (slist_heap ?s1)) cs)"
      using tw1 by (rule types_wf_distinct_data)
  qed
  also have "\<dots> = Some ?s2" by (simp add: data_addrs_def)
  finally have 2: "g_slist_foreach (plugin_types ?s1) free_plugin_type None ?s1 = Some ?s2" .
  have "llist (slist_links (slist_heap ?s2)) (plugin_types ?s2) cs" using ll1 by simp
  then have 3: "g_slist_free (plugin_types ?s2) ?s2
      = Some (?s2\<lparr>slist_heap := slist_heap ?s2 |` (- set cs)\<rparr>)"
    by (rule g_slist_free_llist)
  show ?thesis
    unfolding plugins_cleanup_def 1 Option.bind.simps 2 3 by simp
qed

subsection \<open>The example installation and reachable states\<close>

lemma one_type_state_registered:
  "add_plugin_type ''dissector'' (\<lambda>h. h \<noteq> 3) init_state = Some one_type_state"
  by (simp add: add_plugin_type_def g_malloc_def g_slist_append_def init_state_def
      one_type_state_def dissector_type_def)

lemma strrchr_dot_README: "strrchr_dot ''README'' = None"
  by (simp add: strrchr_dot_def)

lemma strrchr_dot_so:
  "strrchr_dot ''foo.so'' = Some ''so''" "strrchr_dot ''bar.so'' = Some ''so''"
  "strrchr_dot ''baz.so'' = Some ''so''"
  by (simp_all add: strrchr_dot_def)

lemma demo_scan_dir_q:
  "plugins_scan_dir (demo_env p) ''/q'' DONT_REPORT_LOAD_FAILURE init_state
     = Some (init_state\<lparr>trace := [Module_open 2,
          Report_failure ''The plugin bar.so has no version symbol'', Module_close 2]\<rparr>)"
  by (simp add: plugins_scan_dir_def plugins_scan_dir_entry_def demo_env_def strrchr_dot_so
      check_if_plugin_exists_def check_if_plugin_exists_from.simps init_state_def
      FILENAME_LEN_def report_failure_def g_module_close_def)

lemma demo_scan:
  "scan_plugins (demo_env True) DONT_REPORT_LOAD_FAILURE one_type_state = Some scanned_state"
  by (simp add: scan_plugins_def scan_from_def plugins_scan_dir_def plugins_scan_dir_entry_def
      demo_env_def strrchr_dot_so strrchr_dot_README one_type_state_def scanned_state_def
      check_if_plugin_exists_def check_if_plugin_exists_from.simps
      FILENAME_LEN_def report_failure_def g_module_close_def g_malloc_def
      g_slist_foreach.simps call_plugin_callback_def dissector_type_def foo_plugin_def
      g_free_plugin_def add_plugin_def add_plugin_last.simps quoted_def)

lemma add_plugin_type_full:
  "32 \<le> type_val s \<Longrightarrow>
   add_plugin_type type callback s =
     Some (s\<lparr>trace := trace s @ [Report_failure
       (''At most 32 plugin types can be supported, so the plugin type '' @ [CHR 0x27] @ type
          @ [CHR 0x27] @ '' won'' @ [CHR 0x27] @ ''t be supported.'')]\<rparr>)"
  by (simp add: add_plugin_type_def report_failure_def)

lemma init_state_wf: "state_wf e init_state [] [] [] []"
  by (simp add: state_wf_def registry_wf_def types_wf_def alloc_ok_def handles_ok_def init_state_def)

lemma add_plugin_type_state_wf:
  assumes wf: "state_wf e s as ps cs ts"
  shows "\<exists>s' cs' ts'. add_plugin_type type callback s = Some s' \<and> state_wf e s' as ps cs' ts'
     \<and> plugin_list s' = plugin_list s
     \<and> (plugin_types s \<noteq> None \<longrightarrow> plugin_types s' = plugin_types s)
     \<and> length ts' = (if length ts < 32 then Suc (length ts) else length ts)"
proof -
  from wf have rw: "registry_wf e s as ps" and tw: "types_wf s cs ts" and al: "alloc_ok s"
    and ho: "handles_ok s ps"
    by (simp_all add: state_wf_def)
  show ?thesis
  proof (cases "length ts < 32")
    case True
    from add_plugin_type_wf[OF tw al True, of type callback] obtain s' where
      s': "add_plugin_type type callback s = Some s'"
      "types_wf s' (cs @ [Suc (next_free s)])
          (ts @ [\<lparr>pt_type = type, pt_callback = callback, pt_type_val = of_nat (length ts)\<rparr>])"
      "alloc_ok s'" "plugin_heap s' = plugin_heap s" "plugin_list s' = plugin_list s"
      "plugin_types s \<noteq> None \<longrightarrow> plugin_types s' = plugin_types s"
      "trace s' = trace s"
      by blast
    have "registry_wf e s' as ps" using rw s'(4,5) by (simp add: registry_wf_def)
    moreover have "handles_ok s' ps" using ho s'(7) by (simp add: handles_ok_def)
    ultimately show ?thesis using s' True unfolding state_wf_def
      by (intro exI[of _ s'] exI[of _ "cs @ [Suc (next_free s)]"]
          exI[of _ "ts @ [\<lparr>pt_type = type, pt_callback = callback, pt_type_val = of_nat (length ts)\<rparr>]"])
        simp
  next
    case False
    with tw have "unat (type_val s) = 32" by (simp add: types_wf_def)
    then have "32 \<le> type_val s" by (simp add: word_le_nat_alt)
    moreover have "state_wf e (s\<lparr>trace := trace s @ [Report_failure
       (''At most 32 plugin types can be supported, so the plugin type '' @ [CHR 0x27] @ type
          @ [CHR 0x27] @ '' won'' @ [CHR 0x27] @ ''t be supported.'')]\<rparr>) as ps cs ts"
      by (rule state_wf_trace[OF wf]) simp
    ultimately show ?thesis using add_plugin_type_full[of s type callback] False
      by auto
  qed
qed

lemma reachable_wf: "reachable e s \<Longrightarrow> \<exists>as ps cs ts. state_wf e s as ps cs ts"
proof (induction rule: reachable.induct)
  case start
  show ?case using init_state_wf by blast
next
  case (add_type s type callback s')
  then obtain as ps cs ts where "state_wf e s as ps cs ts" by blast
  from add_plugin_type_state_wf[OF this, of type callback] add_type.hyps(2)
  show ?case by auto
next
  case (scan s mode s')
  then obtain as ps cs ts where "state_wf e s as ps cs ts" by blast
  from scan_plugins_refines[OF this, of mode] scan.hyps(2)
  show ?case by auto
qed

lemma add_plugin_types_wf:
  assumes "state_wf e s as ps cs ts" and "length ts + length rs \<le> 32"
  shows "\<exists>s' cs' ts'. add_plugin_types rs s = Some s' \<and> state_wf e s' as ps cs' ts'
     \<and> length ts' = length ts + length rs"
  using assms
proof (induction rs arbitrary: s cs ts)
  case Nil
  then show ?case by auto
next
  case (Cons r rs)
  from add_plugin_type_state_wf[OF Cons.prems(1), of "fst r" "snd r"] Cons.prems(2)
  obtain s1 cs1 ts1 where 1: "add_plugin_type (fst r) (snd r) s = Some s1"
    "state_wf e s1 as ps cs1 ts1" "length ts1 = Suc (length ts)"
    by (auto split: if_splits)
  from Cons.IH[OF 1(2)] 1(3) Cons.prems(2) obtain s' cs' ts' where
    "add_plugin_types rs s1 = Some s'" "state_wf e s' as ps cs' ts'"
    "length ts' = length ts1 + length rs" by auto
  with 1 show ?case by auto
qed

lemma full_state_type_val: "type_val full_state = 32"
proof -
  from add_plugin_types_wf[OF init_state_wf, of "replicate 32 (''t'', \<lambda>h. True)" "demo_env True"]
  obtain s' cs' ts' where "add_plugin_types (replicate 32 (''t'', \<lambda>h. True)) init_state = Some s'"
    "state_wf (demo_env True) s' [] [] cs' ts'" "length ts' = 32" by auto
  then have "full_state = s'" "unat (type_val s') = 32"
    by (simp_all add: full_state_def state_wf_def types_wf_def)
  then show ?thesis by (metis of_nat_unat ucast_id of_nat_numeral)
qed

lemma types_wf_head:
  "types_wf s cs ts \<Longrightarrow> plugin_types s = (case cs of [] \<Rightarrow> None | c # _ \<Rightarrow> Some c)"
  by (cases cs) (auto simp: types_wf_def)

lemma demo_reachable_one: "reachable (demo_env p) one_type_state"
  using reachable.add_type[OF reachable.start one_type_state_registered] .

lemma demo_reachable_scanned: "reachable (demo_env True) scanned_state"
  using reachable.scan[OF demo_reachable_one demo_scan] .

lemma one_type_state_wf: "state_wf e one_type_state [] [] [1] [dissector_type]"
  by (simp add: state_wf_def registry_wf_def types_wf_def alloc_ok_def handles_ok_def
      one_type_state_def type_at_def data_at_def slist_links_def dissector_type_def)

lemma classify_zero_iff:
  "classify ts h = 0 \<longleftrightarrow> (\<forall>t \<in> set ts. pt_callback t h \<longrightarrow> 32 \<le> unat (pt_type_val t))"
proof -
  have "classify ts h = 0 \<longleftrightarrow> (\<forall>b. \<not> bit (classify ts h) b)"
  proof
    assume "classify ts h = 0"
    then show "\<forall>b. \<not> bit (classify ts h) b" by simp
  next
    assume "\<forall>b. \<not> bit (classify ts h) b"
    then show "classify ts h = 0" by (intro bit_word_eqI) simp
  qed
  also have "\<dots> \<longleftrightarrow> (\<forall>t \<in> set ts. pt_callback t h \<longrightarrow> 32 \<le> unat (pt_type_val t))"
    unfolding classify_def bit_classify_from by (auto simp: not_less)
  finally show ?thesis .
qed

lemma scan_plugins_times_noop:
  "plugin_list s \<noteq> None \<Longrightarrow> scan_plugins_times n e mode s = Some s"
  by (induction n) (simp_all add: scan_plugins_noop)

lemma scanned_state_wf: "state_wf (demo_env p) scanned_state [2] [foo_plugin] [1] [dissector_type]"
  by (simp add: state_wf_def registry_wf_def types_wf_def alloc_ok_def handles_ok_def
      scanned_state_def type_at_def data_at_def slist_links_def plugin_links_def
      dissector_type_def foo_plugin_def unlinked_def module_file_def strrchr_dot_so demo_env_def)

lemma demo_cleanup: "plugins_cleanup scanned_state = Some cleaned_state"
  by (simp add: plugins_cleanup_def plugins_cleanup_loop.simps g_slist_foreach.simps
      g_slist_free.simps free_plugin_type_def g_free_plugin_type_def g_free_plugin_def
      scanned_state_def cleaned_state_def foo_plugin_def)

section \<open>The claims\<close>

subsection \<open>C1: a module without the version symbol\<close>

text \<open>
  C1, as the code has it. When a candidate file opens but has no \<open>version\<close> symbol, the
  module is closed and the file is skipped: nothing of the state changes but the trace,
  which gains the opening, the report and the closing. The failure is reported in both
  modes: this call of \<open>report_failure\<close> does not depend on \<open>mode\<close>.
\<close>

theorem missing_version_reported_in_both_modes:
  assumes "module_file e nm" and "check_if_plugin_exists nm s = Some False"
    and "g_module_open e (plugin_filename e dirname nm) = Some h"
    and "g_module_symbol e h ''version'' = None"
  shows "plugins_scan_dir_entry e dirname mode nm s =
     Some (s\<lparr>trace := trace s @ [Module_open h,
              Report_failure (''The plugin '' @ nm @ '' has no version symbol''),
              Module_close h]\<rparr>)"
  using assms by (rule entry_no_version)

text \<open>The theorem at \<open>bar.so\<close> of the example, in verbose mode.\<close>

theorem missing_version_reported_witness:
  "module_file (demo_env False) ''bar.so''
   \<and> check_if_plugin_exists ''bar.so'' init_state = Some False
   \<and> g_module_open (demo_env False) (plugin_filename (demo_env False) ''/q'' ''bar.so'') = Some 2
   \<and> g_module_symbol (demo_env False) 2 ''version'' = None
   \<and> plugins_scan_dir_entry (demo_env False) ''/q'' REPORT_LOAD_FAILURE ''bar.so'' init_state =
       Some (init_state\<lparr>trace := trace init_state @ [Module_open 2,
              Report_failure (''The plugin '' @ ''bar.so'' @ '' has no version symbol''),
              Module_close 2]\<rparr>)"
proof -
  have 1: "module_file (demo_env False) ''bar.so''"
    by (simp add: module_file_def strrchr_dot_so demo_env_def)
  have 2: "check_if_plugin_exists ''bar.so'' init_state = Some False"
    by (simp add: check_if_plugin_exists_def check_if_plugin_exists_from.simps init_state_def)
  have 3: "g_module_open (demo_env False) (plugin_filename (demo_env False) ''/q'' ''bar.so'') = Some 2"
    by (simp add: plugin_filename_def demo_env_def FILENAME_LEN_def)
  have 4: "g_module_symbol (demo_env False) 2 ''version'' = None"
    by (simp add: demo_env_def)
  from missing_version_reported_in_both_modes[OF 1 2 3 4, of REPORT_LOAD_FAILURE] 1 2 3 4 show ?thesis by simp
qed

text \<open>
  C1 as stated says that silent mode emits no report for a missing version symbol. A
  silent scan of the directory that holds only \<open>bar.so\<close> reports the failure.
\<close>

theorem missing_version_silent_counterexample:
  "plugins_scan_dir (demo_env False) ''/q'' DONT_REPORT_LOAD_FAILURE init_state
     = Some (init_state\<lparr>trace := [Module_open 2,
          Report_failure ''The plugin bar.so has no version symbol'', Module_close 2]\<rparr>)"
  by (rule demo_scan_dir_q)

subsection \<open>C2: what cleanup releases\<close>

text \<open>
  C2, as the code has it. \<open>plugins_cleanup\<close> frees every plugin record of the registry,
  every registered type and every cell of the type list. It closes no module: the trace
  is unchanged, and the module handle of every registered plugin is still open after
  cleanup.
\<close>

theorem cleanup_frees_records_and_closes_no_module:
  assumes "state_wf e s as ps cs ts"
  shows "\<exists>s'. plugins_cleanup s = Some s'
     \<and> (\<forall>a \<in> set as. plugin_heap s' a = None)
     \<and> (\<forall>c \<in> set cs. slist_heap s' c = None)
     \<and> (\<forall>d \<in> data_addrs s cs. type_heap s' d = None)
     \<and> trace s' = trace s
     \<and> (\<forall>p \<in> set ps. still_open s' (p_handle p))"
proof -
  from assms have ho: "handles_ok s ps" by (simp add: state_wf_def)
  have "still_open s (p_handle p)" if "p \<in> set ps" for p
  proof -
    from that have "p_handle p \<in> set (map p_handle ps)" by simp
    then have "count_list (map p_handle ps) (p_handle p) \<noteq> 0"
      by (simp only: count_list_0_iff not_not)
    then have "0 < count_list (map p_handle ps) (p_handle p)" by simp
    with ho show ?thesis by (simp add: still_open_def handles_ok_def)
  qed
  moreover
  from assms have "llist (plugin_links (plugin_heap s)) (plugin_list s) as" and "types_wf s cs ts"
    by (simp_all add: state_wf_def registry_wf_def)
  then have "plugins_cleanup s =
     Some (s\<lparr>plugin_heap := plugin_heap s |` (- set as),
             type_heap := type_heap s |` (- data_addrs s cs),
             slist_heap := slist_heap s |` (- set cs)\<rparr>)"
    by (rule plugins_cleanup_effect)
  ultimately show ?thesis by (simp add: still_open_def)
qed

text \<open>The theorem at the example state with \<open>foo.so\<close> registered.\<close>

theorem cleanup_frees_records_witness:
  "state_wf (demo_env True) scanned_state [2] [foo_plugin] [1] [dissector_type]
   \<and> (\<exists>s'. plugins_cleanup scanned_state = Some s'
     \<and> (\<forall>a \<in> set [2]. plugin_heap s' a = None)
     \<and> (\<forall>c \<in> set [1]. slist_heap s' c = None)
     \<and> (\<forall>d \<in> data_addrs scanned_state [1]. type_heap s' d = None)
     \<and> trace s' = trace scanned_state
     \<and> (\<forall>p \<in> set [foo_plugin]. still_open s' (p_handle p)))"
  using cleanup_frees_records_and_closes_no_module[OF scanned_state_wf[of True]] scanned_state_wf[of True] by simp

text \<open>
  C2 as stated says that cleanup closes the module handle of every registered plugin. In
  the example the scan registers \<open>foo.so\<close> with handle 1, and after cleanup handle 1 is
  still open.
\<close>

theorem cleanup_handle_still_open_counterexample:
  "scan_plugins (demo_env True) DONT_REPORT_LOAD_FAILURE one_type_state = Some scanned_state
   \<and> plugin_heap scanned_state 2 = Some foo_plugin \<and> p_handle foo_plugin = 1
   \<and> plugins_cleanup scanned_state = Some cleaned_state
   \<and> still_open cleaned_state 1"
  using demo_scan demo_cleanup
  by (simp add: scanned_state_def cleaned_state_def foo_plugin_def still_open_def)

subsection \<open>C3: discovery is meant to run once\<close>

text \<open>
  C3. The comment at the guard of \<open>scan_plugins\<close> says that plugins are scanned for only
  once, and so does the claim. The guard tests whether the registry is empty, and a pass
  that registers nothing leaves it empty. With one type registered and a system directory
  that holds only \<open>bar.so\<close>, two calls of \<open>scan_plugins\<close> in a row call
  \<open>plugins_scan_dir\<close> on that directory twice: here the code departs from its comment.
\<close>

theorem scan_plugins_scans_twice_after_empty_pass:
  "map_option scan_calls
     (scan_plugins_times 2 ((demo_env True)\<lparr>get_plugins_dir_with_version := ''/q''\<rparr>)
        DONT_REPORT_LOAD_FAILURE one_type_state)
   = Some [(System_dir, ''/q''), (System_dir, ''/q'')]"
  by (simp add: numeral_2_eq_2 scan_plugins_def scan_from_def plugins_scan_dir_def
      plugins_scan_dir_entry_def demo_env_def strrchr_dot_so one_type_state_def scan_calls_def
      check_if_plugin_exists_def check_if_plugin_exists_from.simps
      FILENAME_LEN_def report_failure_def g_module_close_def)

subsection \<open>C4: the 33rd type\<close>

text \<open>
  C4. Once the counter \<open>type_val\<close> has reached 32, which it has after 32 registrations,
  \<open>add_plugin_type\<close> reports a failure and changes nothing else: the type list, its
  types with their names, predicates and bit indices, and the counter are as before.
\<close>

theorem add_plugin_type_rejected_after_32:
  "32 \<le> type_val s \<Longrightarrow>
   add_plugin_type type callback s =
     Some (s\<lparr>trace := trace s @ [Report_failure
       (''At most 32 plugin types can be supported, so the plugin type '' @ [CHR 0x27] @ type
          @ [CHR 0x27] @ '' won'' @ [CHR 0x27] @ ''t be supported.'')]\<rparr>)"
  by (rule add_plugin_type_full)

text \<open>The theorem at the state reached by 32 registrations.\<close>

theorem add_plugin_type_rejected_witness:
  "32 \<le> type_val full_state
   \<and> add_plugin_type ''x'' (\<lambda>h. True) full_state =
     Some (full_state\<lparr>trace := trace full_state @ [Report_failure
       (''At most 32 plugin types can be supported, so the plugin type '' @ [CHR 0x27] @ ''x''
          @ [CHR 0x27] @ '' won'' @ [CHR 0x27] @ ''t be supported.'')]\<rparr>)"
proof -
  have "32 \<le> type_val full_state" by (simp add: full_state_type_val)
  with add_plugin_type_rejected_after_32[OF this] show ?thesis by simp
qed

subsection \<open>C5: classification soundness\<close>

text \<open>
  C5. For every candidate that passes the version check, \<open>plugins_scan_dir\<close> returns. It
  creates the candidate's record with mask zero and runs the classification pass on it;
  the pass ends with a mask \<open>m\<close> whose bit \<open>b\<close> is set if and only if a type with bit index
  \<open>b\<close> is registered and its predicate is true of the candidate's module handle. When
  \<open>m\<close> is zero the candidate is discarded; otherwise the record with mask \<open>m\<close> is the
  plugin that the scanner appends to the registry.
\<close>

theorem classification_mask_sound:
  assumes wf: "state_wf e s as ps cs ts"
    and mf: "module_file e nm" and nd: "nm \<notin> set (map p_name ps)"
    and op: "g_module_open e (plugin_filename e dirname nm) = Some h"
    and sy: "g_module_symbol e h ''version'' = Some v"
  shows "\<exists>s' m. plugins_scan_dir_entry e dirname mode nm s = Some s'
     \<and> g_slist_foreach (plugin_types s) call_plugin_callback (Some (next_free s))
          (s\<lparr>trace := trace s @ [Module_open h], next_free := Suc (next_free s),
             plugin_heap := (plugin_heap s)(next_free s \<mapsto>
               \<lparr>p_handle = h, p_name = nm, p_version = v, p_types = 0, p_next = None\<rparr>)\<rparr>)
        = Some (s\<lparr>trace := trace s @ [Module_open h], next_free := Suc (next_free s),
             plugin_heap := (plugin_heap s)(next_free s \<mapsto>
               \<lparr>p_handle = h, p_name = nm, p_version = v, p_types = m, p_next = None\<rparr>)\<rparr>)
     \<and> (\<forall>b. bit m b \<longleftrightarrow>
           (b < length ts \<and> unat (pt_type_val (ts ! b)) = b \<and> pt_callback (ts ! b) h))
     \<and> (if m = 0 then
           s' = s\<lparr>next_free := Suc (next_free s),
                   trace := trace s @ [Module_open h]
                     @ (if mode = REPORT_LOAD_FAILURE
                        then [Report_failure (''The plugin '' @ quoted nm
                                @ '' has no registration routines'')]
                        else [])
                     @ [Module_close h]\<rparr>
         else
           state_wf e s' (as @ [next_free s])
             (ps @ [\<lparr>p_handle = h, p_name = nm, p_version = v, p_types = m, p_next = None\<rparr>]) cs ts
           \<and> trace s' = trace s @ [Module_open h])"
proof -
  from wf have rw: "registry_wf e s as ps" and tw: "types_wf s cs ts" and al: "alloc_ok s"
    by (simp_all add: state_wf_def)
  let ?m = "classify ts h"
  have ch: "check_if_plugin_exists nm s = Some False"
    using registry_check[OF rw, of nm] nd by simp
  note run = entry_classified[OF mf ch op sy tw al, of mode]
  note pass = fresh_candidate_classified[OF tw, of h nm v]
  have len: "length ts \<le> 32" using tw by (simp add: types_wf_def)
  have bits: "\<forall>b. bit ?m b \<longleftrightarrow>
      (b < length ts \<and> unat (pt_type_val (ts ! b)) = b \<and> pt_callback (ts ! b) h)"
  proof
    fix b
    show "bit ?m b \<longleftrightarrow>
      (b < length ts \<and> unat (pt_type_val (ts ! b)) = b \<and> pt_callback (ts ! b) h)"
      using types_wf_bit_index[OF tw, of b h] types_wf_nth[OF tw, of b] len
      by (auto simp: classify_def bit_classify_from)
  qed
  show ?thesis
  proof (cases "?m = 0")
    case True
    with run pass bits show ?thesis
      by (intro exI[of _ "s\<lparr>next_free := Suc (next_free s),
                   trace := trace s @ [Module_open h]
                     @ (if mode = REPORT_LOAD_FAILURE
                        then [Report_failure (''The plugin '' @ quoted nm
                                @ '' has no registration routines'')]
                        else [])
                     @ [Module_close h]\<rparr>"] exI[of _ ?m]) simp
  next
    case False
    from entry_add[OF wf mf nd False, of v] obtain s' where
      a: "add_plugin (next_free s)
          (s\<lparr>trace := trace s @ [Module_open h], next_free := Suc (next_free s),
             plugin_heap := (plugin_heap s)(next_free s \<mapsto>
               \<lparr>p_handle = h, p_name = nm, p_version = v, p_types = ?m, p_next = None\<rparr>)\<rparr>)
          = Some s'"
      and b: "state_wf e s' (as @ [next_free s])
           (ps @ [\<lparr>p_handle = h, p_name = nm, p_version = v, p_types = ?m, p_next = None\<rparr>]) cs ts"
      and c: "trace s' = trace s @ [Module_open h]"
      by blast
    from run False a have "plugins_scan_dir_entry e dirname mode nm s = Some s'" by simp
    with pass bits b c False show ?thesis
      by (intro exI[of _ s'] exI[of _ ?m]) simp
  qed
qed

text \<open>
  The theorem at \<open>foo.so\<close> of the example: the scanner registers it with mask 1, the bit of
  the one registered type.
\<close>

theorem classification_mask_witness:
  "state_wf (demo_env True) one_type_state [] [] [1] [dissector_type]
   \<and> module_file (demo_env True) ''foo.so'' \<and> ''foo.so'' \<notin> set (map p_name [])
   \<and> g_module_open (demo_env True) (plugin_filename (demo_env True) ''/p/2.5'' ''foo.so'') = Some 1
   \<and> g_module_symbol (demo_env True) 1 ''version'' = Some ''1.0''
   \<and> (\<exists>s'. plugins_scan_dir_entry (demo_env True) ''/p/2.5'' REPORT_LOAD_FAILURE ''foo.so''
            one_type_state = Some s'
        \<and> state_wf (demo_env True) s' [2] [foo_plugin] [1] [dissector_type])"
proof -
  have 1: "module_file (demo_env True) ''foo.so''"
    by (simp add: module_file_def strrchr_dot_so demo_env_def)
  have 2: "''foo.so'' \<notin> set (map p_name [])" by simp
  have 3: "g_module_open (demo_env True) (plugin_filename (demo_env True) ''/p/2.5'' ''foo.so'') = Some 1"
    by (simp add: plugin_filename_def demo_env_def FILENAME_LEN_def)
  have 4: "g_module_symbol (demo_env True) 1 ''version'' = Some ''1.0''"
    by (simp add: demo_env_def)
  from classification_mask_sound[OF one_type_state_wf 1 2 3 4, of REPORT_LOAD_FAILURE]
  have ex: "\<exists>s'. plugins_scan_dir_entry (demo_env True) ''/p/2.5'' REPORT_LOAD_FAILURE ''foo.so''
            one_type_state = Some s'
        \<and> state_wf (demo_env True) s' [2] [foo_plugin] [1] [dissector_type]"
  proof (elim exE conjE)
    fix s' m
    assume run: "plugins_scan_dir_entry (demo_env True) ''/p/2.5'' REPORT_LOAD_FAILURE
        ''foo.so'' one_type_state = Some s'"
      and bits: "\<forall>b. bit m b \<longleftrightarrow> (b < length [dissector_type]
        \<and> unat (pt_type_val ([dissector_type] ! b)) = b \<and> pt_callback ([dissector_type] ! b) 1)"
      and res: "if m = 0 then
           s' = one_type_state\<lparr>next_free := Suc (next_free one_type_state),
                   trace := trace one_type_state @ [Module_open 1]
                     @ (if REPORT_LOAD_FAILURE = REPORT_LOAD_FAILURE
                        then [Report_failure (''The plugin '' @ quoted ''foo.so''
                                @ '' has no registration routines'')]
                        else [])
                     @ [Module_close 1]\<rparr>
         else
           state_wf (demo_env True) s' ([] @ [next_free one_type_state])
             ([] @ [\<lparr>p_handle = 1, p_name = ''foo.so'', p_version = ''1.0'', p_types = m,
                       p_next = None\<rparr>]) [1] [dissector_type]
           \<and> trace s' = trace one_type_state @ [Module_open 1]"
    have "bit m b \<longleftrightarrow> b = 0" for b
      using bits[rule_format, of b] by (cases b) (simp_all add: dissector_type_def)
    then have m: "m = 1" by (intro bit_word_eqI) (simp add: bit_1_iff)
    then have "m \<noteq> 0" by simp
    with res have "state_wf (demo_env True) s' ([] @ [next_free one_type_state])
             ([] @ [\<lparr>p_handle = 1, p_name = ''foo.so'', p_version = ''1.0'', p_types = m,
                       p_next = None\<rparr>]) [1] [dissector_type]"
      by (simp only: if_False)
    moreover have "next_free one_type_state = 2" by (simp add: one_type_state_def)
    moreover have "\<lparr>p_handle = 1, p_name = ''foo.so'', p_version = ''1.0'', p_types = 1,
                       p_next = None\<rparr> = foo_plugin" by (simp add: foo_plugin_def)
    ultimately have "state_wf (demo_env True) s' [2] [foo_plugin] [1] [dissector_type]"
      by (simp only: append_Nil m)
    with run show ?thesis by (intro exI[of _ s'] conjI)
  qed
  from one_type_state_wf[of "demo_env True"] 1 2 3 4 ex show ?thesis by (intro conjI)
qed

subsection \<open>C6: unique names\<close>

text \<open>
  C6. In every reachable state the registry is a well-formed list whose plugins have
  pairwise distinct names. A directory entry with the name of a registered plugin, in
  whatever directory, is skipped before the loader is called: the state is unchanged
  but for the warning that verbose mode adds to the trace.
\<close>

theorem registry_names_unique_and_duplicates_skipped:
  assumes "reachable e s"
  shows "\<exists>as. llist (plugin_links (plugin_heap s)) (plugin_list s) as
     \<and> inj_on (name_at (plugin_heap s)) (set as)
     \<and> (\<forall>a \<in> set as. plugins_scan_dir_entry e dirname mode (name_at (plugin_heap s) a) s =
           Some (if mode = REPORT_LOAD_FAILURE
                 then s\<lparr>trace := trace s @ [Report_warning (''The plugin ''
                        @ quoted (name_at (plugin_heap s) a)
                        @ '' was found in multiple directories.'' @ [CHR 0x0A])]\<rparr>
                 else s))"
proof -
  from reachable_wf[OF assms] obtain as ps cs ts where "state_wf e s as ps cs ts" by blast
  then have rw: "registry_wf e s as ps" by (simp add: state_wf_def)
  then have ll: "llist (plugin_links (plugin_heap s)) (plugin_list s) as"
    and dist: "distinct (map p_name ps)"
    and good: "\<forall>p \<in> set ps. module_file e (p_name p)"
    by (simp_all add: registry_wf_def)
  note names = registry_names[OF rw]
  have "distinct (map (name_at (plugin_heap s)) as)" using dist names by simp
  then have inj: "inj_on (name_at (plugin_heap s)) (set as)" by (simp add: distinct_map)
  have dup: "plugins_scan_dir_entry e dirname mode (name_at (plugin_heap s) a) s =
           Some (if mode = REPORT_LOAD_FAILURE
                 then s\<lparr>trace := trace s @ [Report_warning (''The plugin ''
                        @ quoted (name_at (plugin_heap s) a)
                        @ '' was found in multiple directories.'' @ [CHR 0x0A])]\<rparr>
                 else s)" if "a \<in> set as" for a
  proof -
    from that have "name_at (plugin_heap s) a \<in> set (map (name_at (plugin_heap s)) as)" by simp
    then have mem: "name_at (plugin_heap s) a \<in> set (map p_name ps)" by (simp only: names)
    then have mf: "module_file e (name_at (plugin_heap s) a)" using good by auto
    have "check_if_plugin_exists (name_at (plugin_heap s) a) s = Some True"
      using registry_check[OF rw, of "name_at (plugin_heap s) a"] mem by simp
    from entry_duplicate[OF mf this, of dirname mode] show ?thesis
      by (simp add: report_warning_def)
  qed
  from ll inj dup show ?thesis by blast
qed

text \<open>
  The theorem at the example state with \<open>foo.so\<close> registered from the system directory,
  for the \<open>foo.so\<close> of the personal directory, in verbose mode.
\<close>

theorem registry_names_unique_witness:
  "reachable (demo_env True) scanned_state
   \<and> plugins_scan_dir_entry (demo_env True) ''/h/2.5'' REPORT_LOAD_FAILURE ''foo.so'' scanned_state =
       Some (scanned_state\<lparr>trace := trace scanned_state @ [Report_warning (''The plugin ''
              @ quoted ''foo.so'' @ '' was found in multiple directories.'' @ [CHR 0x0A])]\<rparr>)"
proof -
  note r = demo_reachable_scanned
  from registry_names_unique_and_duplicates_skipped[OF r, of "''/h/2.5''" REPORT_LOAD_FAILURE] obtain as where
    ll: "llist (plugin_links (plugin_heap scanned_state)) (plugin_list scanned_state) as"
    and dup: "\<forall>a \<in> set as. plugins_scan_dir_entry (demo_env True) ''/h/2.5'' REPORT_LOAD_FAILURE
           (name_at (plugin_heap scanned_state) a) scanned_state =
           Some (scanned_state\<lparr>trace := trace scanned_state @ [Report_warning (''The plugin ''
                        @ quoted (name_at (plugin_heap scanned_state) a)
                        @ '' was found in multiple directories.'' @ [CHR 0x0A])]\<rparr>)"
    by auto
  have "llist (plugin_links (plugin_heap scanned_state)) (plugin_list scanned_state) [2]"
    by (simp add: scanned_state_def plugin_links_def foo_plugin_def)
  with ll have "as = [2]" by (rule llist_unique)
  moreover have "name_at (plugin_heap scanned_state) 2 = ''foo.so''"
    by (simp add: name_at_def scanned_state_def foo_plugin_def)
  ultimately show ?thesis using dup r by simp
qed

subsection \<open>C7: zero-type discard\<close>

text \<open>
  C7. When a candidate passes the version check and no registered type's predicate is
  true of it, so that its mask is zero, the module is closed and the candidate record is
  freed: the registry and the store of plugins are unchanged, the address of the record
  is free again, and every module is open as often as before. Only the allocator and the
  trace move on; the failure is reported in verbose mode only.
\<close>

theorem zero_type_candidate_discarded:
  assumes wf: "state_wf e s as ps cs ts"
    and mf: "module_file e nm" and nd: "nm \<notin> set (map p_name ps)"
    and op: "g_module_open e (plugin_filename e dirname nm) = Some h"
    and sy: "g_module_symbol e h ''version'' = Some v"
    and none: "\<forall>t \<in> set ts. \<not> pt_callback t h"
  shows "\<exists>s'. plugins_scan_dir_entry e dirname mode nm s = Some s'
     \<and> s' = s\<lparr>next_free := Suc (next_free s),
             trace := trace s @ [Module_open h]
               @ (if mode = REPORT_LOAD_FAILURE
                  then [Report_failure (''The plugin '' @ quoted nm @ '' has no registration routines'')]
                  else [])
               @ [Module_close h]\<rparr>
     \<and> plugin_heap s' (next_free s) = None
     \<and> (\<forall>g. open_count (trace s') g = open_count (trace s) g)
     \<and> state_wf e s' as ps cs ts"
proof -
  from wf have rw: "registry_wf e s as ps" and tw: "types_wf s cs ts" and al: "alloc_ok s"
    by (simp_all add: state_wf_def)
  let ?evs = "[Module_open h]
               @ (if mode = REPORT_LOAD_FAILURE
                  then [Report_failure (''The plugin '' @ quoted nm @ '' has no registration routines'')]
                  else [])
               @ [Module_close h]"
  let ?s' = "s\<lparr>next_free := Suc (next_free s), trace := trace s @ ?evs\<rparr>"
  have ch: "check_if_plugin_exists nm s = Some False"
    using registry_check[OF rw, of nm] nd by simp
  have z: "classify ts h = 0" using none by (simp add: classify_zero_iff)
  have run: "plugins_scan_dir_entry e dirname mode nm s = Some ?s'"
    using entry_classified[OF mf ch op sy tw al, of mode] z by simp
  have bal: "open_count ?evs g = 0" for g by simp
  have "plugin_heap ?s' (next_free s) = None" using al by (simp add: alloc_ok_def)
  moreover have "\<forall>g. open_count (trace ?s') g = open_count (trace s) g"
    using bal by (simp add: open_count_append)
  moreover have "state_wf e ?s' as ps cs ts"
    by (rule state_wf_quiet[OF wf]) (simp_all add: bal)
  ultimately show ?thesis using run by blast
qed

text \<open>The theorem at \<open>baz.so\<close> of the example, in verbose mode.\<close>

theorem zero_type_candidate_witness:
  "state_wf (demo_env True) one_type_state [] [] [1] [dissector_type]
   \<and> module_file (demo_env True) ''baz.so'' \<and> ''baz.so'' \<notin> set (map p_name [])
   \<and> g_module_open (demo_env True) (plugin_filename (demo_env True) ''/p/2.5'' ''baz.so'') = Some 3
   \<and> g_module_symbol (demo_env True) 3 ''version'' = Some ''1.0''
   \<and> \<not> pt_callback dissector_type 3
   \<and> plugins_scan_dir_entry (demo_env True) ''/p/2.5'' REPORT_LOAD_FAILURE ''baz.so'' one_type_state =
     Some (one_type_state\<lparr>next_free := Suc (next_free one_type_state),
             trace := trace one_type_state @ [Module_open 3]
               @ [Report_failure (''The plugin '' @ quoted ''baz.so'' @ '' has no registration routines'')]
               @ [Module_close 3]\<rparr>)
   \<and> plugin_heap one_type_state (next_free one_type_state) = None"
proof -
  have 1: "module_file (demo_env True) ''baz.so''"
    by (simp add: module_file_def strrchr_dot_so demo_env_def)
  have 2: "''baz.so'' \<notin> set (map p_name [])" by simp
  have 3: "g_module_open (demo_env True) (plugin_filename (demo_env True) ''/p/2.5'' ''baz.so'') = Some 3"
    by (simp add: plugin_filename_def demo_env_def FILENAME_LEN_def)
  have 4: "g_module_symbol (demo_env True) 3 ''version'' = Some ''1.0''"
    by (simp add: demo_env_def)
  have 5: "\<forall>t \<in> set [dissector_type]. \<not> pt_callback t 3" by (simp add: dissector_type_def)
  from zero_type_candidate_discarded[OF one_type_state_wf 1 2 3 4 5, of REPORT_LOAD_FAILURE] one_type_state_wf 1 3 4 5
  show ?thesis by simp
qed

subsection \<open>C8: privilege gating\<close>

text \<open>
  C8. When the process was started with special privileges, \<open>scan_plugins\<close> returns and
  none of the calls of \<open>plugins_scan_dir\<close> it makes is the one for the personal plugin
  directory, whatever the directories hold and whatever the other scans found.
\<close>

theorem privileged_scan_skips_personal_dir:
  assumes "reachable e s" and "started_with_special_privs e"
  shows "\<exists>s' new. scan_plugins e mode s = Some s' \<and> scan_calls s' = scan_calls s @ new
     \<and> (\<forall>d. (Personal_dir, d) \<notin> set new)"
proof -
  from reachable_wf[OF assms(1)] obtain as ps cs ts where "state_wf e s as ps cs ts" by blast
  from scan_plugins_refines[OF this, of mode] obtain s' where
    "scan_plugins e mode s = Some s'"
    "scan_calls s' = scan_calls s @ (if plugin_list s = None then scan_plugins_dirs e else [])"
    by blast
  moreover have "(Personal_dir, d) \<notin> set (scan_plugins_dirs e)" for d
    using assms(2)
    by (auto simp: scan_plugins_dirs_def subdir_calls_def split: option.splits)
  ultimately show ?thesis by auto
qed

text \<open>The theorem at the privileged example, from the state with one type.\<close>

theorem privileged_scan_witness:
  "reachable (demo_env True) one_type_state \<and> started_with_special_privs (demo_env True)
   \<and> (\<exists>s' new. scan_plugins (demo_env True) REPORT_LOAD_FAILURE one_type_state = Some s'
        \<and> scan_calls s' = scan_calls one_type_state @ new
        \<and> (\<forall>d. (Personal_dir, d) \<notin> set new))"
proof -
  have p: "started_with_special_privs (demo_env True)" by (simp add: demo_env_def)
  from privileged_scan_skips_personal_dir[OF demo_reachable_one p] demo_reachable_one p show ?thesis by blast
qed

subsection \<open>C9: discovery twice\<close>

text \<open>
  C9. With the environment and the registered types fixed, two calls of \<open>scan_plugins\<close>
  in a row both return, and the registry after the second call is the registry after the
  first: the same head, the same nodes in the same order, holding the same plugins.
\<close>

theorem scan_plugins_twice_same_registry:
  assumes "reachable e s"
  shows "\<exists>s1 s2 as ps. scan_plugins e mode s = Some s1 \<and> scan_plugins e mode s1 = Some s2
     \<and> plugin_list s2 = plugin_list s1
     \<and> registry_wf e s1 as ps \<and> registry_wf e s2 as ps"
proof -
  from reachable_wf[OF assms] obtain as ps cs ts where "state_wf e s as ps cs ts" by blast
  from scan_plugins_refines[OF this, of mode] obtain s1 as1 where
    1: "scan_plugins e mode s = Some s1"
    and wf1: "state_wf e s1 as1 (scan_plugins_abs e ts ps) cs ts" by blast
  then have rw1: "registry_wf e s1 as1 (scan_plugins_abs e ts ps)" by (simp add: state_wf_def)
  show ?thesis
  proof (cases "plugin_list s1 = None")
    case False
    then have "scan_plugins e mode s1 = Some s1" by (rule scan_plugins_noop)
    with 1 rw1 show ?thesis by blast
  next
    case True
    with rw1 have emp: "scan_plugins_abs e ts ps = []" by (simp add: registry_empty)
    with rw1 have as1: "as1 = []" using registry_length[OF rw1] by simp
    from scan_plugins_refines[OF wf1, of mode] obtain s2 as2 where
      2: "scan_plugins e mode s1 = Some s2"
      and wf2: "state_wf e s2 as2 (scan_plugins_abs e ts (scan_plugins_abs e ts ps)) cs ts"
      by blast
    moreover have "scan_plugins_abs e ts (scan_plugins_abs e ts ps) = []"
      using scan_plugins_abs_idem[of e ts ps] by (simp add: emp)
    ultimately have rw2: "registry_wf e s2 as2 []"
      by (simp add: state_wf_def)
    then have "as2 = []" using registry_length[OF rw2] by simp
    moreover have "plugin_list s2 = None" using rw2 by (simp add: registry_empty)
    ultimately show ?thesis using 1 2 rw1 rw2 True emp as1 by auto
  qed
qed

text \<open>The theorem at the example, from the state with one type.\<close>

theorem scan_plugins_twice_witness:
  "reachable (demo_env True) one_type_state
   \<and> (\<exists>s1 s2 as ps. scan_plugins (demo_env True) DONT_REPORT_LOAD_FAILURE one_type_state = Some s1
     \<and> scan_plugins (demo_env True) DONT_REPORT_LOAD_FAILURE s1 = Some s2
     \<and> plugin_list s2 = plugin_list s1
     \<and> registry_wf (demo_env True) s1 as ps \<and> registry_wf (demo_env True) s2 as ps)"
  using scan_plugins_twice_same_registry[OF demo_reachable_one] demo_reachable_one by blast

subsection \<open>C10: cleanup does not reset the list heads\<close>

text \<open>
  C10. \<open>plugins_cleanup\<close> leaves \<open>plugin_list\<close> and \<open>plugin_types\<close> at the values they
  had, so after cleanup of a non-empty registry \<open>scan_plugins\<close> still finds a non-null
  \<open>plugin_list\<close> and is a no-op. Of the other operations that change the state, neither
  \<open>scan_plugins\<close> nor \<open>add_plugin_type\<close> sets a non-null head back to \<open>NULL\<close>.
\<close>

theorem cleanup_keeps_list_heads:
  assumes "reachable e s"
  shows "(\<exists>s'. plugins_cleanup s = Some s'
            \<and> plugin_list s' = plugin_list s \<and> plugin_types s' = plugin_types s
            \<and> (plugin_list s \<noteq> None \<longrightarrow> scan_plugins e mode s' = Some s'))
     \<and> (\<exists>s'. scan_plugins e mode s = Some s'
            \<and> (plugin_list s \<noteq> None \<longrightarrow> plugin_list s' = plugin_list s)
            \<and> plugin_types s' = plugin_types s)
     \<and> (\<exists>s'. add_plugin_type type callback s = Some s'
            \<and> plugin_list s' = plugin_list s
            \<and> (plugin_types s \<noteq> None \<longrightarrow> plugin_types s' = plugin_types s))"
proof -
  from reachable_wf[OF assms] obtain as ps cs ts where wf: "state_wf e s as ps cs ts" by blast
  then have ll: "llist (plugin_links (plugin_heap s)) (plugin_list s) as" and tw: "types_wf s cs ts"
    by (simp_all add: state_wf_def registry_wf_def)
  let ?c = "s\<lparr>plugin_heap := plugin_heap s |` (- set as),
             type_heap := type_heap s |` (- data_addrs s cs),
             slist_heap := slist_heap s |` (- set cs)\<rparr>"
  have "plugins_cleanup s = Some ?c" using ll tw by (rule plugins_cleanup_effect)
  moreover have "plugin_list s \<noteq> None \<longrightarrow> scan_plugins e mode ?c = Some ?c"
    by (simp add: scan_plugins_noop)
  ultimately have a: "\<exists>s'. plugins_cleanup s = Some s'
            \<and> plugin_list s' = plugin_list s \<and> plugin_types s' = plugin_types s
            \<and> (plugin_list s \<noteq> None \<longrightarrow> scan_plugins e mode s' = Some s')"
    by (intro exI[of _ ?c]) simp
  from scan_plugins_refines[OF wf, of mode] obtain s1 as1 where
    1: "scan_plugins e mode s = Some s1" and wf1: "state_wf e s1 as1 (scan_plugins_abs e ts ps) cs ts"
    by blast
  have "plugin_types s1 = plugin_types s"
    using types_wf_head[OF tw] types_wf_head[of s1 cs ts] wf1 by (simp add: state_wf_def)
  moreover have "plugin_list s \<noteq> None \<longrightarrow> plugin_list s1 = plugin_list s"
    using 1 by (auto simp: scan_plugins_noop)
  ultimately have b: "\<exists>s'. scan_plugins e mode s = Some s'
            \<and> (plugin_list s \<noteq> None \<longrightarrow> plugin_list s' = plugin_list s)
            \<and> plugin_types s' = plugin_types s"
    using 1 by blast
  from add_plugin_type_state_wf[OF wf, of type callback]
  have c: "\<exists>s'. add_plugin_type type callback s = Some s'
            \<and> plugin_list s' = plugin_list s
            \<and> (plugin_types s \<noteq> None \<longrightarrow> plugin_types s' = plugin_types s)"
    by blast
  from a b c show ?thesis by blast
qed

text \<open>The theorem at the example state with \<open>foo.so\<close> registered.\<close>

theorem cleanup_keeps_list_heads_witness:
  "reachable (demo_env True) scanned_state
   \<and> plugins_cleanup scanned_state = Some cleaned_state
   \<and> plugin_list cleaned_state = Some 2 \<and> plugin_types cleaned_state = Some 1
   \<and> scan_plugins (demo_env True) REPORT_LOAD_FAILURE cleaned_state = Some cleaned_state"
proof -
  from cleanup_keeps_list_heads[OF demo_reachable_scanned, of REPORT_LOAD_FAILURE] obtain s' where
    "plugins_cleanup scanned_state = Some s'"
    "plugin_list s' = plugin_list scanned_state" "plugin_types s' = plugin_types scanned_state"
    "plugin_list scanned_state \<noteq> None \<longrightarrow> scan_plugins (demo_env True) REPORT_LOAD_FAILURE s' = Some s'"
    by blast
  with demo_cleanup demo_reachable_scanned show ?thesis by (simp add: scanned_state_def)
qed

end
